theory Spec2Isabelle
  imports Main "HOL-Library.Word"
begin

section \<open>Machine types of ThreadSafeCircularBuffer.h\<close>

text \<open>
  The header uses \<open>uint32_t\<close> for cursors, level, span fields and sizes passed to
  \<open>resize\<close>, \<open>int32_t\<close> for the indices it hands out (with \<open>-1\<close> as the sentinel),
  \<open>int64_t\<close> for timestamps and \<open>unsigned short\<close> for the two slot queries.  They
  are words of the respective width: \<open>+\<close> and \<open>-\<close> wrap, \<open>unat\<close> reads a word as
  unsigned.  An \<open>int32_t\<close> that is initialised from a \<open>uint32_t\<close> keeps the bit
  pattern, so both are \<open>32 word\<close> and the sentinel \<open>-1\<close> is the word \<open>0xFFFFFFFF\<close>.
  \<open>std::vector::size()\<close> is a \<open>size_t\<close>, taken here as 64 bits wide (LP64); a
  \<open>uint32_t\<close> compared with it is widened first.
\<close>

type_synonym uint32_t = "32 word"
type_synonym int32_t = "32 word"
type_synonym int64_t = "64 word"
type_synonym size_t = "64 word"
type_synonym unsigned_short = "16 word"
type_synonym unsigned_long = "64 word"

text \<open>\<open>UINT_MAX\<close>, the default of both timeout arguments, for a 32-bit \<open>unsigned int\<close>.\<close>

definition UINT_MAX :: nat where
  "UINT_MAX = 4294967295"

text \<open>
  \<open>std::vector<T>::resize(n)\<close>: a longer vector is cut to its first \<open>n\<close> elements, a
  shorter one is filled up with value-initialised elements; the elements that stay keep
  their value.
\<close>

definition vector_resize :: "nat \<Rightarrow> 'a \<Rightarrow> 'a list \<Rightarrow> 'a list" where
  "vector_resize n v xs = take n xs @ replicate (n - length xs) v"

section \<open>The slot: \<open>cBufferElement\<close>\<close>

record 'a cBufferElement =
  m_vTElement :: "'a list"
  m_u32DataStartIndex :: uint32_t
  m_u32DataSize :: uint32_t

text \<open>
  A value-initialised slot, as \<open>std::vector::resize\<close> creates it: the struct has no
  constructor of its own, so both span fields are zero and the storage is empty.
\<close>

abbreviation value_initialized_element :: "'a cBufferElement" where
  "value_initialized_element \<equiv>
     \<lparr>m_vTElement = [], m_u32DataStartIndex = 0, m_u32DataSize = 0\<rparr>"

text \<open>
  \<open>cBufferElement::resize\<close>.  The element type \<open>T\<close> is a sample type whose
  value-initialisation \<open>T()\<close> is \<open>0\<close>.
\<close>

definition cBufferElement_resize :: "('a::zero) cBufferElement \<Rightarrow> uint32_t \<Rightarrow> 'a cBufferElement" where
  "cBufferElement_resize e u32NSamples =
     e\<lparr>m_vTElement := vector_resize (unat u32NSamples) 0 (m_vTElement e)\<rparr>"

definition setEmpty :: "'a cBufferElement \<Rightarrow> 'a cBufferElement" where
  "setEmpty e = (e\<lparr>m_u32DataSize := 0\<rparr>)\<lparr>m_u32DataStartIndex := 0\<rparr>"

definition setDataSpan :: "'a cBufferElement \<Rightarrow> uint32_t \<Rightarrow> uint32_t \<Rightarrow> 'a cBufferElement" where
  "setDataSpan e u32StartIndex u32Size =
     (e\<lparr>m_u32DataSize := u32Size\<rparr>)\<lparr>m_u32DataStartIndex := u32StartIndex\<rparr>"

text \<open>\<open>setFull\<close> stores a \<open>size_t\<close> in a \<open>uint32_t\<close>: the low 32 bits.\<close>

definition setFull :: "'a cBufferElement \<Rightarrow> 'a cBufferElement" where
  "setFull e =
     (e\<lparr>m_u32DataSize := of_nat (length (m_vTElement e))\<rparr>)\<lparr>m_u32DataStartIndex := 0\<rparr>"

definition setDataUsed :: "'a cBufferElement \<Rightarrow> uint32_t \<Rightarrow> 'a cBufferElement" where
  "setDataUsed e u32Size =
     (e\<lparr>m_u32DataSize := m_u32DataSize e - u32Size\<rparr>)
      \<lparr>m_u32DataStartIndex := m_u32DataStartIndex e + u32Size\<rparr>"

definition setDataAdded :: "'a cBufferElement \<Rightarrow> uint32_t \<Rightarrow> 'a cBufferElement" where
  "setDataAdded e u32Size = e\<lparr>m_u32DataSize := m_u32DataSize e + u32Size\<rparr>"

text \<open>
  The two queries return \<open>unsigned short\<close>: the conversion of the \<open>size_t\<close> and of the
  \<open>uint32_t\<close> keeps the low 16 bits.
\<close>

definition allocationSize :: "'a cBufferElement \<Rightarrow> unsigned_short" where
  "allocationSize e = of_nat (length (m_vTElement e))"

definition dataSize :: "'a cBufferElement \<Rightarrow> unsigned_short" where
  "dataSize e = ucast (m_u32DataSize e)"

section \<open>The ring: \<open>cThreadSafeCircularBuffer\<close>\<close>

text \<open>
  The members of the class.  The mutex makes every method body one atomic step, so it
  has no field.  A condition variable is modelled by what the methods do to it: the list
  of notifications it was sent, oldest first.
\<close>

datatype notification = notify_one | notify_all

record 'a cThreadSafeCircularBuffer =
  m_vTCircularBuffer :: "'a cBufferElement list"
  m_vi64Timestamps_us :: "int64_t list"
  m_u32ReadIndex :: uint32_t
  m_u32WriteIndex :: uint32_t
  m_u32Level :: uint32_t
  m_oConditionReadPossible :: "notification list"
  m_oConditionWritePossible :: "notification list"

text \<open>
  \<open>boost::condition_variable::timed_wait(lock, rel_time)\<close> gives up the lock and blocks
  until the condition is notified or \<open>rel_time\<close> has elapsed; it returns \<open>false\<close> when
  the period elapsed and \<open>true\<close> otherwise.  The environment of one call is the delay
  after which the first wake-up arrives, in milliseconds (\<open>None\<close>: none ever does); a
  spurious wake-up counts like a notification.  A period of zero has elapsed at once.
\<close>

definition timed_wait :: "nat \<Rightarrow> nat option \<Rightarrow> bool" where
  "timed_wait rel_time_ms notified_after =
     (case notified_after of None \<Rightarrow> False | Some d \<Rightarrow> d < rel_time_ms)"

subsection \<open>resize and the constructor\<close>

text \<open>The \<open>for\<close> loop of \<open>resize\<close>; \<open>ui\<close> stays below \<open>size()\<close>, so \<open>ui++\<close> never wraps.\<close>

function resize_loop :: "nat \<Rightarrow> uint32_t \<Rightarrow> ('a::zero) cBufferElement list \<Rightarrow> 'a cBufferElement list" where
  "resize_loop ui uiElementSize buf =
     (if ui < length buf
      then resize_loop (Suc ui) uiElementSize
             (buf[ui := cBufferElement_resize (buf ! ui) uiElementSize])
      else buf)"
  by pat_completeness auto
termination
  by (relation "measure (\<lambda>(ui, uiElementSize, buf). length buf - ui)") auto

declare resize_loop.simps [simp del]

definition resize :: "('a::zero) cThreadSafeCircularBuffer \<Rightarrow> uint32_t \<Rightarrow> uint32_t \<Rightarrow> 'a cThreadSafeCircularBuffer" where
  "resize r nElements uiElementSize =
     (let r1 = r\<lparr>m_vTCircularBuffer :=
                   vector_resize (unat nElements) value_initialized_element (m_vTCircularBuffer r)\<rparr>;
          r2 = r1\<lparr>m_vi64Timestamps_us :=
                   vector_resize (unat nElements) 0 (m_vi64Timestamps_us r1)\<rparr>
      in r2\<lparr>m_vTCircularBuffer := resize_loop 0 uiElementSize (m_vTCircularBuffer r2)\<rparr>)"

text \<open>
  The constructor: the member initialisers set the three counters to zero, the vectors
  and condition variables start empty, and the body calls \<open>resize\<close>.
\<close>

definition new_cThreadSafeCircularBuffer :: "uint32_t \<Rightarrow> uint32_t \<Rightarrow> ('a::zero) cThreadSafeCircularBuffer" where
  "new_cThreadSafeCircularBuffer u32NElements u32ElementSize =
     resize \<lparr>m_vTCircularBuffer = [], m_vi64Timestamps_us = [],
             m_u32ReadIndex = 0, m_u32WriteIndex = 0, m_u32Level = 0,
             m_oConditionReadPossible = [], m_oConditionWritePossible = []\<rparr>
       u32NElements u32ElementSize"

subsection \<open>Acquiring an index\<close>

text \<open>
  Each method is a state transformer that also returns the method's result.  The two
  blocking calls take the timeout and the environment of their wait.  Both test the
  level with \<open>if\<close>, not in a loop: after a wake-up they return the cursor without
  looking at the level again.  The cursor a call reads after its wait is written only by
  the commit of the waiting role itself and by \<open>clear\<close>, so it is the cursor of the
  state in which the call started.
\<close>

definition getNextReadIndex ::
  "'a cThreadSafeCircularBuffer \<Rightarrow> uint32_t \<Rightarrow> nat option \<Rightarrow> 'a cThreadSafeCircularBuffer \<times> int32_t" where
  "getNextReadIndex r u32Timeout_ms notified_after =
     (if m_u32Level r = 0
      then (if \<not> timed_wait (unat u32Timeout_ms) notified_after
            then (r, - 1)
            else (r, m_u32ReadIndex r))
      else (r, m_u32ReadIndex r))"

definition getNextWriteIndex ::
  "'a cThreadSafeCircularBuffer \<Rightarrow> unsigned_long \<Rightarrow> nat option \<Rightarrow> 'a cThreadSafeCircularBuffer \<times> int32_t" where
  "getNextWriteIndex r u32Timeout_ms notified_after =
     (if unat (m_u32Level r) \<ge> length (m_vTCircularBuffer r)
      then (if \<not> timed_wait (unat u32Timeout_ms) notified_after
            then (r, - 1)
            else (r, m_u32WriteIndex r))
      else (r, m_u32WriteIndex r))"

definition tryToGetNextWriteIndex ::
  "'a cThreadSafeCircularBuffer \<Rightarrow> 'a cThreadSafeCircularBuffer \<times> int32_t" where
  "tryToGetNextWriteIndex r =
     (if unat (m_u32Level r) \<ge> length (m_vTCircularBuffer r)
      then (r, - 1)
      else (r, m_u32WriteIndex r))"

subsection \<open>Committing\<close>

text \<open>
  \<open>getElementPointer(i)\<close> is \<open>&front() + i\<close>; using it for a slot outside the vector is
  undefined behaviour, the result \<open>None\<close> of \<open>elementRead\<close>.  The comparison with
  \<open>size() - 1\<close> is made in \<open>size_t\<close>.
\<close>

definition elementRead :: "'a cThreadSafeCircularBuffer \<Rightarrow> 'a cThreadSafeCircularBuffer option" where
  "elementRead r =
     (let i = unat (m_u32ReadIndex r) in
      if i < length (m_vTCircularBuffer r)
      then
        let r1 = r\<lparr>m_vTCircularBuffer :=
                     (m_vTCircularBuffer r)[i := setEmpty (m_vTCircularBuffer r ! i)]\<rparr>;
            r2 = r1\<lparr>m_u32Level := m_u32Level r1 - 1\<rparr>;
            r3 = r2\<lparr>m_u32ReadIndex := m_u32ReadIndex r2 + 1\<rparr>;
            r4 = (if unat (m_u32ReadIndex r3) \<ge> length (m_vTCircularBuffer r3)
                  then r3\<lparr>m_u32ReadIndex := 0\<rparr> else r3)
        in Some (if (ucast (m_u32Level r4) :: size_t) = of_nat (length (m_vTCircularBuffer r4)) - 1
                 then r4\<lparr>m_oConditionWritePossible := m_oConditionWritePossible r4 @ [notify_one]\<rparr>
                 else r4)
      else None)"

definition elementWritten :: "'a cThreadSafeCircularBuffer \<Rightarrow> 'a cThreadSafeCircularBuffer" where
  "elementWritten r =
     (let r1 = r\<lparr>m_u32Level := m_u32Level r + 1\<rparr>;
          r2 = r1\<lparr>m_u32WriteIndex := m_u32WriteIndex r1 + 1\<rparr>;
          r3 = (if unat (m_u32WriteIndex r2) \<ge> length (m_vTCircularBuffer r2)
                then r2\<lparr>m_u32WriteIndex := 0\<rparr> else r2)
      in if m_u32Level r3 = 1
         then r3\<lparr>m_oConditionReadPossible := m_oConditionReadPossible r3 @ [notify_one]\<rparr>
         else r3)"

subsection \<open>Queries, timestamps, clear and the destructor\<close>

definition getLevel :: "'a cThreadSafeCircularBuffer \<Rightarrow> uint32_t" where
  "getLevel r = m_u32Level r"

definition getNElements :: "'a cThreadSafeCircularBuffer \<Rightarrow> uint32_t" where
  "getNElements r = of_nat (length (m_vTCircularBuffer r))"

text \<open>Reading or writing a timestamp outside the vector is undefined behaviour: \<open>None\<close>.\<close>

definition getElementTimestamp_us :: "'a cThreadSafeCircularBuffer \<Rightarrow> uint32_t \<Rightarrow> int64_t option" where
  "getElementTimestamp_us r uiIndex =
     (if unat uiIndex < length (m_vi64Timestamps_us r)
      then Some (m_vi64Timestamps_us r ! unat uiIndex) else None)"

definition setElementTimestamp ::
  "'a cThreadSafeCircularBuffer \<Rightarrow> uint32_t \<Rightarrow> int64_t \<Rightarrow> 'a cThreadSafeCircularBuffer option" where
  "setElementTimestamp r uiIndex i64Timestamp_us =
     (if unat uiIndex < length (m_vi64Timestamps_us r)
      then Some (r\<lparr>m_vi64Timestamps_us := (m_vi64Timestamps_us r)[unat uiIndex := i64Timestamp_us]\<rparr>)
      else None)"

text \<open>
  The \<open>for\<close> loop of \<open>clear\<close> runs over the slots and writes the timestamp of the same
  index; a timestamp vector shorter than the slot vector would be written out of range.
\<close>

function clear_loop :: "nat \<Rightarrow> 'a cThreadSafeCircularBuffer \<Rightarrow> 'a cThreadSafeCircularBuffer option" where
  "clear_loop ui r =
     (if ui < length (m_vTCircularBuffer r)
      then (if ui < length (m_vi64Timestamps_us r)
            then clear_loop (Suc ui)
                   (r\<lparr>m_vTCircularBuffer :=
                        (m_vTCircularBuffer r)[ui := setEmpty (m_vTCircularBuffer r ! ui)],
                      m_vi64Timestamps_us := (m_vi64Timestamps_us r)[ui := 0]\<rparr>)
            else None)
      else Some r)"
  by pat_completeness auto
termination
  by (relation "measure (\<lambda>(ui, r). length (m_vTCircularBuffer r) - ui)") auto

declare clear_loop.simps [simp del]

definition clear :: "'a cThreadSafeCircularBuffer \<Rightarrow> 'a cThreadSafeCircularBuffer option" where
  "clear r =
     (case clear_loop 0 (r\<lparr>m_u32ReadIndex := 0, m_u32WriteIndex := 0, m_u32Level := 0\<rparr>) of
        None \<Rightarrow> None
      | Some r' \<Rightarrow>
          Some (r'\<lparr>m_oConditionWritePossible := m_oConditionWritePossible r' @ [notify_one]\<rparr>))"

text \<open>
  The destructor notifies every waiter of both conditions and then sleeps for 200 ms,
  which changes no member.
\<close>

definition destroy_cThreadSafeCircularBuffer :: "'a cThreadSafeCircularBuffer \<Rightarrow> 'a cThreadSafeCircularBuffer" where
  "destroy_cThreadSafeCircularBuffer r =
     (let r1 = r\<lparr>m_oConditionReadPossible := m_oConditionReadPossible r @ [notify_all]\<rparr>
      in r1\<lparr>m_oConditionWritePossible := m_oConditionWritePossible r1 @ [notify_all]\<rparr>)"

section \<open>The data-model invariant\<close>

text \<open>
  A ring state of the data model: the slot count fits the \<open>uint32_t\<close> it was set from,
  there is one timestamp per slot, the level is at most the slot count, both cursors
  point at a slot (for a ring without slots they are zero), and the write cursor is
  \<open>level\<close> slots ahead of the read cursor, counting round the ring.
\<close>

definition ring_inv :: "'a cThreadSafeCircularBuffer \<Rightarrow> bool" where
  "ring_inv r \<longleftrightarrow>
     length (m_vTCircularBuffer r) < 2 ^ 32 \<and>
     length (m_vi64Timestamps_us r) = length (m_vTCircularBuffer r) \<and>
     unat (m_u32Level r) \<le> length (m_vTCircularBuffer r) \<and>
     (length (m_vTCircularBuffer r) = 0 \<and> m_u32ReadIndex r = 0 \<and> m_u32WriteIndex r = 0 \<or>
      unat (m_u32ReadIndex r) < length (m_vTCircularBuffer r) \<and>
      unat (m_u32WriteIndex r) < length (m_vTCircularBuffer r) \<and>
      (unat (m_u32ReadIndex r) + unat (m_u32Level r)) mod length (m_vTCircularBuffer r)
        = unat (m_u32WriteIndex r))"

text \<open>The occupied slots, oldest first: \<open>level\<close> indices from the read cursor onwards.\<close>

definition occupied :: "'a cThreadSafeCircularBuffer \<Rightarrow> int32_t list" where
  "occupied r =
     map (\<lambda>k. of_nat ((unat (m_u32ReadIndex r) + k) mod length (m_vTCircularBuffer r)))
       [0 ..< unat (m_u32Level r)]"

section \<open>One producer and one consumer\<close>

text \<open>
  The calls of the two roles, in the order in which they take the mutex.  Each role
  remembers the index its last successful acquire returned until it commits; a commit
  without such an index, and an acquire that would have to wait (ring full for the
  producer, ring empty for the consumer) or that returns the sentinel, are outside the
  discipline: the step is \<open>None\<close>.  The indices are logged when they are committed.
\<close>

datatype call =
    AcquireWrite unsigned_long "nat option"
  | CommitWrite
  | AcquireRead uint32_t "nat option"
  | CommitRead

record 'a spsc =
  ring :: "'a cThreadSafeCircularBuffer"
  producer_index :: "int32_t option"
  consumer_index :: "int32_t option"
  committed_writes :: "int32_t list"
  committed_reads :: "int32_t list"

definition spsc_start :: "'a cThreadSafeCircularBuffer \<Rightarrow> 'a spsc" where
  "spsc_start r =
     \<lparr>ring = r, producer_index = None, consumer_index = None,
      committed_writes = [], committed_reads = []\<rparr>"

fun spsc_step :: "'a spsc \<Rightarrow> call \<Rightarrow> 'a spsc option" where
  "spsc_step s (AcquireWrite t w) =
     (case getNextWriteIndex (ring s) t w of
        (r', i) \<Rightarrow>
          if unat (m_u32Level (ring s)) < length (m_vTCircularBuffer (ring s)) \<and> i \<noteq> - 1
          then Some (s\<lparr>ring := r', producer_index := Some i\<rparr>)
          else None)"
| "spsc_step s CommitWrite =
     (case producer_index s of
        None \<Rightarrow> None
      | Some i \<Rightarrow>
          Some (s\<lparr>ring := elementWritten (ring s), producer_index := None,
                 committed_writes := committed_writes s @ [i]\<rparr>))"
| "spsc_step s (AcquireRead t w) =
     (case getNextReadIndex (ring s) t w of
        (r', i) \<Rightarrow>
          if m_u32Level (ring s) \<noteq> 0 \<and> i \<noteq> - 1
          then Some (s\<lparr>ring := r', consumer_index := Some i\<rparr>)
          else None)"
| "spsc_step s CommitRead =
     (case consumer_index s of
        None \<Rightarrow> None
      | Some i \<Rightarrow>
          (case elementRead (ring s) of
             None \<Rightarrow> None
           | Some r' \<Rightarrow>
               Some (s\<lparr>ring := r', consumer_index := None,
                      committed_reads := committed_reads s @ [i]\<rparr>)))"

fun spsc_run :: "'a spsc \<Rightarrow> call list \<Rightarrow> 'a spsc option" where
  "spsc_run s [] = Some s"
| "spsc_run s (c # cs) =
     (case spsc_step s c of None \<Rightarrow> None | Some s' \<Rightarrow> spsc_run s' cs)"

text \<open>What each role may hold between its acquire and its commit.\<close>

definition spsc_inv :: "'a spsc \<Rightarrow> bool" where
  "spsc_inv s \<longleftrightarrow>
     ring_inv (ring s) \<and>
     (case producer_index s of
        None \<Rightarrow> True
      | Some i \<Rightarrow> i = m_u32WriteIndex (ring s) \<and>
                  unat (m_u32Level (ring s)) < length (m_vTCircularBuffer (ring s))) \<and>
     (case consumer_index s of
        None \<Rightarrow> True
      | Some i \<Rightarrow> i = m_u32ReadIndex (ring s) \<and> m_u32Level (ring s) \<noteq> 0)"

text \<open>
  The same calls when an acquire counts as soon as it returns an index, whether or not
  it had to wait: the level is not looked at, only the sentinel.  The commits are those
  of \<open>spsc_step\<close>.
\<close>

fun successful_step :: "'a spsc \<Rightarrow> call \<Rightarrow> 'a spsc option" where
  "successful_step s (AcquireWrite t w) =
     (case getNextWriteIndex (ring s) t w of
        (r', i) \<Rightarrow>
          if i \<noteq> - 1 then Some (s\<lparr>ring := r', producer_index := Some i\<rparr>) else None)"
| "successful_step s (AcquireRead t w) =
     (case getNextReadIndex (ring s) t w of
        (r', i) \<Rightarrow>
          if i \<noteq> - 1 then Some (s\<lparr>ring := r', consumer_index := Some i\<rparr>) else None)"
| "successful_step s c = spsc_step s c"

fun successful_run :: "'a spsc \<Rightarrow> call list \<Rightarrow> 'a spsc option" where
  "successful_run s [] = Some s"
| "successful_run s (c # cs) =
     (case successful_step s c of None \<Rightarrow> None | Some s' \<Rightarrow> successful_run s' cs)"

section \<open>A concrete ring\<close>

text \<open>
  A ring of three slots of four integers after the producer has filled slot 0 with
  \<open>[1, 2, 3, 4]\<close>, marked its span \<open>(0, 4)\<close>, stamped it with 7 and called
  \<open>elementWritten\<close> once.
\<close>

definition ring_one_batch :: "int cThreadSafeCircularBuffer" where
  "ring_one_batch =
     \<lparr>m_vTCircularBuffer =
        [\<lparr>m_vTElement = [1, 2, 3, 4], m_u32DataStartIndex = 0, m_u32DataSize = 4\<rparr>,
         \<lparr>m_vTElement = [0, 0, 0, 0], m_u32DataStartIndex = 0, m_u32DataSize = 0\<rparr>,
         \<lparr>m_vTElement = [0, 0, 0, 0], m_u32DataStartIndex = 0, m_u32DataSize = 0\<rparr>],
      m_vi64Timestamps_us = [7, 0, 0],
      m_u32ReadIndex = 0, m_u32WriteIndex = 1, m_u32Level = 1,
      m_oConditionReadPossible = [notify_one], m_oConditionWritePossible = []\<rparr>"

section \<open>Word arithmetic of the counters\<close>

lemma u32_inc:
  fixes x :: "32 word"
  assumes "unat x < n" "n < 2 ^ 32"
  shows "unat (x + 1) = unat x + 1"
proof -
  have "unat x + unat (1 :: 32 word) < 2 ^ LENGTH(32)" using assms by simp
  then have "unat (x + 1) = unat x + unat (1 :: 32 word)" by (simp only: unat_add_lem)
  then show ?thesis by simp
qed

lemma u32_dec:
  fixes x :: "32 word"
  assumes "x \<noteq> 0"
  shows "unat (x - 1) = unat x - 1"
  using assms by (simp add: unat_minus_one)

lemma u32_pos: "(x :: 32 word) \<noteq> 0 \<longleftrightarrow> 0 < unat x"
  by (simp add: unat_gt_0)

lemma wrap_cursor:
  assumes "i < (n::nat)"
  shows "(if Suc i \<ge> n then 0 else Suc i) = Suc i mod n"
  using assms by (auto simp: not_le le_Suc_eq)

section \<open>What one commit does\<close>

lemma elementWritten_frame:
  "m_vTCircularBuffer (elementWritten r) = m_vTCircularBuffer r"
  "m_vi64Timestamps_us (elementWritten r) = m_vi64Timestamps_us r"
  "m_u32ReadIndex (elementWritten r) = m_u32ReadIndex r"
  "m_oConditionWritePossible (elementWritten r) = m_oConditionWritePossible r"
  "m_u32Level (elementWritten r) = m_u32Level r + 1"
  by (simp_all add: elementWritten_def Let_def)

lemma elementWritten_cursor:
  assumes "length (m_vTCircularBuffer r) < 2 ^ 32"
    and "unat (m_u32WriteIndex r) < length (m_vTCircularBuffer r)"
  shows "unat (m_u32WriteIndex (elementWritten r))
         = Suc (unat (m_u32WriteIndex r)) mod length (m_vTCircularBuffer r)"
proof -
  have inc: "unat (m_u32WriteIndex r + 1) = Suc (unat (m_u32WriteIndex r))"
    using u32_inc [OF assms(2) assms(1)] by simp
  have "unat (m_u32WriteIndex (elementWritten r))
        = (if length (m_vTCircularBuffer r) \<le> Suc (unat (m_u32WriteIndex r)) then 0
           else Suc (unat (m_u32WriteIndex r)))"
    by (simp add: elementWritten_def Let_def inc)
  then show ?thesis using wrap_cursor [OF assms(2)] by simp
qed

lemma elementWritten_level:
  assumes "length (m_vTCircularBuffer r) < 2 ^ 32"
    and "unat (m_u32Level r) < length (m_vTCircularBuffer r)"
  shows "unat (m_u32Level (elementWritten r)) = Suc (unat (m_u32Level r))"
  using u32_inc [OF assms(2) assms(1)] by (simp add: elementWritten_frame)

lemma elementRead_Some:
  assumes "unat (m_u32ReadIndex r) < length (m_vTCircularBuffer r)"
  shows "\<exists>r'. elementRead r = Some r'"
  using assms by (simp add: elementRead_def Let_def)

lemma elementRead_frame:
  assumes "elementRead r = Some r'"
  shows "m_vTCircularBuffer r' = (m_vTCircularBuffer r)
            [unat (m_u32ReadIndex r) := setEmpty (m_vTCircularBuffer r ! unat (m_u32ReadIndex r))]"
    and "m_vi64Timestamps_us r' = m_vi64Timestamps_us r"
    and "m_u32WriteIndex r' = m_u32WriteIndex r"
    and "m_oConditionReadPossible r' = m_oConditionReadPossible r"
    and "m_u32Level r' = m_u32Level r - 1"
    and "unat (m_u32ReadIndex r) < length (m_vTCircularBuffer r)"
  using assms by (auto simp: elementRead_def Let_def split: if_splits)

lemma elementRead_cursor:
  assumes "elementRead r = Some r'"
    and "length (m_vTCircularBuffer r) < 2 ^ 32"
  shows "unat (m_u32ReadIndex r')
         = Suc (unat (m_u32ReadIndex r)) mod length (m_vTCircularBuffer r)"
proof -
  have lt: "unat (m_u32ReadIndex r) < length (m_vTCircularBuffer r)"
    using assms(1) by (rule elementRead_frame)
  have inc: "unat (m_u32ReadIndex r + 1) = Suc (unat (m_u32ReadIndex r))"
    using u32_inc [OF lt assms(2)] by simp
  have "unat (m_u32ReadIndex r')
        = (if length (m_vTCircularBuffer r) \<le> Suc (unat (m_u32ReadIndex r)) then 0
           else Suc (unat (m_u32ReadIndex r)))"
    using assms(1) lt by (auto simp: elementRead_def Let_def inc split: if_splits)
  then show ?thesis using wrap_cursor [OF lt] by simp
qed

lemma elementRead_level:
  assumes "elementRead r = Some r'" and "m_u32Level r \<noteq> 0"
  shows "unat (m_u32Level r') = unat (m_u32Level r) - 1"
  using assms by (simp add: elementRead_frame(5) u32_dec)

section \<open>The commits keep the invariant\<close>

lemma ring_inv_elementWritten:
  assumes inv: "ring_inv r"
    and room: "unat (m_u32Level r) < length (m_vTCircularBuffer r)"
  shows "ring_inv (elementWritten r)"
proof -
  let ?n = "length (m_vTCircularBuffer r)"
  have n: "?n < 2 ^ 32" and ts: "length (m_vi64Timestamps_us r) = ?n"
    using inv by (simp_all add: ring_inv_def)
  have pos: "?n \<noteq> 0" using room by auto
  then have rd: "unat (m_u32ReadIndex r) < ?n" and wr: "unat (m_u32WriteIndex r) < ?n"
    and rel: "(unat (m_u32ReadIndex r) + unat (m_u32Level r)) mod ?n = unat (m_u32WriteIndex r)"
    using inv by (auto simp: ring_inv_def)
  have lv: "unat (m_u32Level (elementWritten r)) = Suc (unat (m_u32Level r))"
    using n room by (rule elementWritten_level)
  have cu: "unat (m_u32WriteIndex (elementWritten r)) = Suc (unat (m_u32WriteIndex r)) mod ?n"
    using n wr by (rule elementWritten_cursor)
  have "(unat (m_u32ReadIndex r) + Suc (unat (m_u32Level r))) mod ?n
        = Suc ((unat (m_u32ReadIndex r) + unat (m_u32Level r)) mod ?n) mod ?n"
    by (simp add: mod_Suc_eq)
  then have rel': "(unat (m_u32ReadIndex r) + Suc (unat (m_u32Level r))) mod ?n
        = Suc (unat (m_u32WriteIndex r)) mod ?n"
    by (simp only: rel)
  have cu_lt: "Suc (unat (m_u32WriteIndex r)) mod ?n < ?n" using pos by simp
  show ?thesis
    unfolding ring_inv_def elementWritten_frame(1,2,3) lv cu
    using n ts room rd rel' cu_lt by simp
qed

lemma ring_inv_elementRead:
  assumes inv: "ring_inv r"
    and some: "m_u32Level r \<noteq> 0"
    and rd': "elementRead r = Some r'"
  shows "ring_inv r'"
proof -
  let ?n = "length (m_vTCircularBuffer r)"
  have n: "?n < 2 ^ 32" and ts: "length (m_vi64Timestamps_us r) = ?n"
    and le: "unat (m_u32Level r) \<le> ?n"
    using inv by (simp_all add: ring_inv_def)
  have lpos: "0 < unat (m_u32Level r)" using some by (simp add: u32_pos)
  then have pos: "?n \<noteq> 0" using le by auto
  then have rd: "unat (m_u32ReadIndex r) < ?n" and wr: "unat (m_u32WriteIndex r) < ?n"
    and rel: "(unat (m_u32ReadIndex r) + unat (m_u32Level r)) mod ?n = unat (m_u32WriteIndex r)"
    using inv by (auto simp: ring_inv_def)
  have len: "length (m_vTCircularBuffer r') = ?n"
    by (simp add: elementRead_frame(1) [OF rd'])
  have lv: "unat (m_u32Level r') = unat (m_u32Level r) - 1"
    using rd' some by (rule elementRead_level)
  have cu: "unat (m_u32ReadIndex r') = Suc (unat (m_u32ReadIndex r)) mod ?n"
    using rd' n by (rule elementRead_cursor)
  have "(Suc (unat (m_u32ReadIndex r)) mod ?n + (unat (m_u32Level r) - 1)) mod ?n
        = (Suc (unat (m_u32ReadIndex r)) + (unat (m_u32Level r) - 1)) mod ?n"
    by (simp add: mod_add_left_eq)
  also have "\<dots> = (unat (m_u32ReadIndex r) + unat (m_u32Level r)) mod ?n"
    using lpos by simp
  finally have rel': "(Suc (unat (m_u32ReadIndex r)) mod ?n + (unat (m_u32Level r) - 1)) mod ?n
        = unat (m_u32WriteIndex r)"
    by (simp only: rel)
  have cu_lt: "Suc (unat (m_u32ReadIndex r)) mod ?n < ?n" using pos by simp
  show ?thesis
    unfolding ring_inv_def len lv cu elementRead_frame(2,3) [OF rd']
    using n ts le wr rel' cu_lt by simp
qed

lemma occupied_elementWritten:
  assumes inv: "ring_inv r"
    and room: "unat (m_u32Level r) < length (m_vTCircularBuffer r)"
  shows "occupied (elementWritten r) = occupied r @ [m_u32WriteIndex r]"
proof -
  let ?n = "length (m_vTCircularBuffer r)"
  have n: "?n < 2 ^ 32" using inv by (simp add: ring_inv_def)
  have pos: "?n \<noteq> 0" using room by auto
  then have rel: "(unat (m_u32ReadIndex r) + unat (m_u32Level r)) mod ?n = unat (m_u32WriteIndex r)"
    using inv by (auto simp: ring_inv_def)
  have lv: "unat (m_u32Level (elementWritten r)) = Suc (unat (m_u32Level r))"
    using n room by (rule elementWritten_level)
  show ?thesis
    by (simp add: occupied_def elementWritten_frame(1,3) lv rel)
qed

lemma occupied_elementRead:
  assumes inv: "ring_inv r"
    and some: "m_u32Level r \<noteq> 0"
    and rd': "elementRead r = Some r'"
  shows "occupied r = m_u32ReadIndex r # occupied r'"
proof -
  let ?n = "length (m_vTCircularBuffer r)"
  let ?i = "unat (m_u32ReadIndex r)"
  let ?l = "unat (m_u32Level r)"
  have n: "?n < 2 ^ 32" and le: "?l \<le> ?n"
    using inv by (simp_all add: ring_inv_def)
  have lpos: "0 < ?l" using some by (simp add: u32_pos)
  then have pos: "?n \<noteq> 0" using le by auto
  then have rd: "?i < ?n" using inv by (auto simp: ring_inv_def)
  have len: "length (m_vTCircularBuffer r') = ?n"
    by (simp add: elementRead_frame(1) [OF rd'])
  have lv: "unat (m_u32Level r') = ?l - 1"
    using rd' some by (rule elementRead_level)
  have cu: "unat (m_u32ReadIndex r') = Suc ?i mod ?n"
    using rd' n by (rule elementRead_cursor)
  have split: "[0 ..< ?l] = 0 # map Suc [0 ..< ?l - 1]"
    using lpos by (metis One_nat_def Suc_pred map_Suc_upt upt_conv_Cons)
  have shift: "\<And>k. (Suc ?i mod ?n + k) mod ?n = (?i + Suc k) mod ?n"
    by (simp add: mod_add_left_eq)
  have "occupied r = map (\<lambda>k. of_nat ((?i + k) mod ?n)) (0 # map Suc [0 ..< ?l - 1])"
    unfolding occupied_def by (simp only: split)
  also have "\<dots> = of_nat (?i mod ?n) # map (\<lambda>k. of_nat ((?i + Suc k) mod ?n)) [0 ..< ?l - 1]"
    by (simp add: comp_def)
  also have "of_nat (?i mod ?n) = m_u32ReadIndex r" using rd by simp
  also have "map (\<lambda>k. of_nat ((?i + Suc k) mod ?n)) [0 ..< ?l - 1] = occupied r'"
    unfolding occupied_def len lv cu by (simp only: shift)
  finally show ?thesis .
qed

section \<open>The loops, resize and the constructor\<close>

lemma resize_loop_eq:
  "resize_loop ui m buf = take ui buf @ map (\<lambda>e. cBufferElement_resize e m) (drop ui buf)"
proof (induction ui m buf rule: resize_loop.induct)
  case (1 ui m buf)
  show ?case
  proof (cases "ui < length buf")
    case True
    have "resize_loop ui m buf = resize_loop (Suc ui) m (buf[ui := cBufferElement_resize (buf ! ui) m])"
      using True by (subst resize_loop.simps) simp
    also have "\<dots> = take (Suc ui) (buf[ui := cBufferElement_resize (buf ! ui) m])
          @ map (\<lambda>e. cBufferElement_resize e m) (drop (Suc ui) (buf[ui := cBufferElement_resize (buf ! ui) m]))"
      using True by (rule "1.IH")
    also have "\<dots> = take ui buf @ map (\<lambda>e. cBufferElement_resize e m) (drop ui buf)"
      using True by (simp add: take_Suc_conv_app_nth Cons_nth_drop_Suc[symmetric])
    finally show ?thesis .
  next
    case False
    then show ?thesis by (subst resize_loop.simps) simp
  qed
qed

lemma resize_fields:
  "m_vTCircularBuffer (resize r n m)
     = map (\<lambda>e. cBufferElement_resize e m)
         (vector_resize (unat n) value_initialized_element (m_vTCircularBuffer r))"
  "m_vi64Timestamps_us (resize r n m) = vector_resize (unat n) 0 (m_vi64Timestamps_us r)"
  "m_u32ReadIndex (resize r n m) = m_u32ReadIndex r"
  "m_u32WriteIndex (resize r n m) = m_u32WriteIndex r"
  "m_u32Level (resize r n m) = m_u32Level r"
  "m_oConditionReadPossible (resize r n m) = m_oConditionReadPossible r"
  "m_oConditionWritePossible (resize r n m) = m_oConditionWritePossible r"
  by (simp_all add: resize_def Let_def resize_loop_eq)

lemma length_vector_resize: "length (vector_resize n v xs) = n"
  by (simp add: vector_resize_def)

lemma resize_lengths:
  "length (m_vTCircularBuffer (resize r n m)) = unat n"
  "length (m_vi64Timestamps_us (resize r n m)) = unat n"
  by (simp_all add: resize_fields length_vector_resize)

lemma new_fields:
  "length (m_vTCircularBuffer (new_cThreadSafeCircularBuffer n m)) = unat n"
  "length (m_vi64Timestamps_us (new_cThreadSafeCircularBuffer n m)) = unat n"
  "m_u32ReadIndex (new_cThreadSafeCircularBuffer n m) = 0"
  "m_u32WriteIndex (new_cThreadSafeCircularBuffer n m) = 0"
  "m_u32Level (new_cThreadSafeCircularBuffer n m) = 0"
  "m_oConditionReadPossible (new_cThreadSafeCircularBuffer n m) = []"
  "m_oConditionWritePossible (new_cThreadSafeCircularBuffer n m) = []"
  by (simp_all add: new_cThreadSafeCircularBuffer_def resize_lengths resize_fields(3-7))

lemma u32_bound: "unat (n :: 32 word) < 2 ^ 32"
  using unsigned_less [of n, where ?'a = nat] by simp

lemma ring_inv_new: "ring_inv (new_cThreadSafeCircularBuffer n m)"
proof (cases "n = 0")
  case True
  then show ?thesis by (simp add: ring_inv_def new_fields)
next
  case False
  then have "0 < unat n" by (simp add: u32_pos)
  then show ?thesis using u32_bound [of n] by (simp add: ring_inv_def new_fields)
qed


lemma clear_loop_eq:
  "length (m_vi64Timestamps_us r) = length (m_vTCircularBuffer r) \<Longrightarrow>
   clear_loop ui r = Some (r\<lparr>m_vTCircularBuffer :=
        take ui (m_vTCircularBuffer r) @ map setEmpty (drop ui (m_vTCircularBuffer r)),
      m_vi64Timestamps_us := take ui (m_vi64Timestamps_us r)
          @ replicate (length (m_vTCircularBuffer r) - ui) 0\<rparr>)"
proof (induction ui r rule: clear_loop.induct)
  case (1 ui r)
  show ?case
  proof (cases "ui < length (m_vTCircularBuffer r)")
    case True
    let ?r' = "r\<lparr>m_vTCircularBuffer :=
                        (m_vTCircularBuffer r)[ui := setEmpty (m_vTCircularBuffer r ! ui)],
                      m_vi64Timestamps_us := (m_vi64Timestamps_us r)[ui := 0]\<rparr>"
    have "clear_loop ui r = clear_loop (Suc ui) ?r'"
      using True "1.prems" by (subst clear_loop.simps) simp
    also have "\<dots> = Some (?r'\<lparr>m_vTCircularBuffer :=
        take (Suc ui) (m_vTCircularBuffer ?r') @ map setEmpty (drop (Suc ui) (m_vTCircularBuffer ?r')),
      m_vi64Timestamps_us := take (Suc ui) (m_vi64Timestamps_us ?r')
          @ replicate (length (m_vTCircularBuffer ?r') - Suc ui) 0\<rparr>)"
      using True "1.prems" by (intro "1.IH") simp_all
    also have "\<dots> = Some (r\<lparr>m_vTCircularBuffer :=
        take ui (m_vTCircularBuffer r) @ map setEmpty (drop ui (m_vTCircularBuffer r)),
      m_vi64Timestamps_us := take ui (m_vi64Timestamps_us r)
          @ replicate (length (m_vTCircularBuffer r) - ui) 0\<rparr>)"
      using True "1.prems"
      by (simp add: take_Suc_conv_app_nth Cons_nth_drop_Suc[symmetric] replicate_Suc[symmetric] Suc_diff_Suc del: replicate_Suc)
    finally show ?thesis .
  next
    case False
    then show ?thesis using "1.prems" by (subst clear_loop.simps) simp
  qed
qed

lemma clear_loop_short:
  "length (m_vi64Timestamps_us r) < length (m_vTCircularBuffer r) \<Longrightarrow> ui \<le> length (m_vi64Timestamps_us r) \<Longrightarrow>
   clear_loop ui r = None"
proof (induction ui r rule: clear_loop.induct)
  case (1 ui r)
  show ?case
  proof (cases "ui < length (m_vi64Timestamps_us r)")
    case True
    then show ?thesis using 1 by (subst clear_loop.simps) simp
  next
    case False
    then show ?thesis using 1 by (subst clear_loop.simps) simp
  qed
qed

section \<open>Runs of the two roles\<close>

lemma spsc_step_fifo:
  assumes inv: "spsc_inv s"
    and step: "spsc_step s c = Some s'"
    and fifo: "q @ committed_writes s = committed_reads s @ occupied (ring s)"
  shows "spsc_inv s' \<and> q @ committed_writes s' = committed_reads s' @ occupied (ring s')"
proof (cases c)
  case (AcquireWrite t w)
  with step have "s' = s\<lparr>producer_index := Some (m_u32WriteIndex (ring s))\<rparr>"
    and "unat (m_u32Level (ring s)) < length (m_vTCircularBuffer (ring s))"
    by (auto simp: getNextWriteIndex_def split: if_splits)
  then show ?thesis using inv fifo by (auto simp: spsc_inv_def split: option.splits)
next
  case CommitWrite
  with step obtain i where held: "producer_index s = Some i"
    and s': "s' = s\<lparr>ring := elementWritten (ring s), producer_index := None,
                 committed_writes := committed_writes s @ [i]\<rparr>"
    by (auto split: option.splits)
  from inv held have i: "i = m_u32WriteIndex (ring s)"
    and room: "unat (m_u32Level (ring s)) < length (m_vTCircularBuffer (ring s))"
    and rinv: "ring_inv (ring s)"
    by (simp_all add: spsc_inv_def)
  have n: "length (m_vTCircularBuffer (ring s)) < 2 ^ 32"
    using rinv by (simp add: ring_inv_def)
  have "unat (m_u32Level (elementWritten (ring s))) = Suc (unat (m_u32Level (ring s)))"
    using n room by (rule elementWritten_level)
  then have ne: "m_u32Level (elementWritten (ring s)) \<noteq> 0" by auto
  have "spsc_inv s'"
    using inv ne ring_inv_elementWritten [OF rinv room]
    by (auto simp: spsc_inv_def s' elementWritten_frame(3) split: option.splits)
  moreover have "q @ committed_writes s' = committed_reads s' @ occupied (ring s')"
    using fifo by (simp add: s' i occupied_elementWritten [OF rinv room])
  ultimately show ?thesis ..
next
  case (AcquireRead t w)
  with step have "s' = s\<lparr>consumer_index := Some (m_u32ReadIndex (ring s))\<rparr>"
    and "m_u32Level (ring s) \<noteq> 0"
    by (auto simp: getNextReadIndex_def split: if_splits)
  then show ?thesis using inv fifo by (auto simp: spsc_inv_def split: option.splits)
next
  case CommitRead
  with step obtain i r' where held: "consumer_index s = Some i"
    and rd: "elementRead (ring s) = Some r'"
    and s': "s' = s\<lparr>ring := r', consumer_index := None,
                 committed_reads := committed_reads s @ [i]\<rparr>"
    by (auto split: option.splits)
  from inv held have i: "i = m_u32ReadIndex (ring s)"
    and some: "m_u32Level (ring s) \<noteq> 0"
    and rinv: "ring_inv (ring s)"
    by (simp_all add: spsc_inv_def)
  have le: "unat (m_u32Level (ring s)) \<le> length (m_vTCircularBuffer (ring s))"
    using rinv by (simp add: ring_inv_def)
  have len: "length (m_vTCircularBuffer r') = length (m_vTCircularBuffer (ring s))"
    by (simp add: elementRead_frame(1) [OF rd])
  have "unat (m_u32Level r') = unat (m_u32Level (ring s)) - 1"
    using rd some by (rule elementRead_level)
  moreover have "0 < unat (m_u32Level (ring s))" using some by (simp add: u32_pos)
  ultimately have room: "unat (m_u32Level r') < length (m_vTCircularBuffer r')"
    using le len by simp
  have "spsc_inv s'"
    using inv room ring_inv_elementRead [OF rinv some rd]
    by (auto simp: spsc_inv_def s' elementRead_frame(3) [OF rd] split: option.splits)
  moreover have "q @ committed_writes s' = committed_reads s' @ occupied (ring s')"
    using fifo by (simp add: s' i occupied_elementRead [OF rinv some rd])
  ultimately show ?thesis ..
qed

lemma spsc_run_fifo:
  assumes "spsc_inv s"
    and "spsc_run s cs = Some s'"
    and "q @ committed_writes s = committed_reads s @ occupied (ring s)"
  shows "spsc_inv s' \<and> q @ committed_writes s' = committed_reads s' @ occupied (ring s')"
  using assms
proof (induction cs arbitrary: s)
  case Nil
  then show ?case by simp
next
  case (Cons c cs)
  from Cons.prems(2) obtain s1 where step: "spsc_step s c = Some s1"
    and run: "spsc_run s1 cs = Some s'"
    by (auto split: option.splits)
  from spsc_step_fifo [OF Cons.prems(1) step Cons.prems(3)]
  show ?case using Cons.IH [OF _ run] by blast
qed

lemma spsc_run_append:
  "spsc_run s (xs @ ys) = (case spsc_run s xs of None \<Rightarrow> None | Some s1 \<Rightarrow> spsc_run s1 ys)"
  by (induction xs arbitrary: s) (auto split: option.splits)

lemma spsc_run_take:
  assumes "spsc_run s cs = Some s'"
  shows "\<exists>s1. spsc_run s (take k cs) = Some s1"
proof -
  have "spsc_run s (take k cs @ drop k cs) = Some s'" using assms by simp
  then show ?thesis unfolding spsc_run_append by (cases "spsc_run s (take k cs)") simp_all
qed

lemma spsc_inv_start: "ring_inv r \<Longrightarrow> spsc_inv (spsc_start r)"
  by (simp add: spsc_inv_def spsc_start_def)

lemma spsc_step_length:
  assumes "spsc_step s c = Some s'"
  shows "length (m_vTCircularBuffer (ring s')) = length (m_vTCircularBuffer (ring s))"
proof (cases c)
  case (AcquireWrite t w)
  with assms show ?thesis by (auto simp: getNextWriteIndex_def split: if_splits)
next
  case CommitWrite
  with assms show ?thesis by (auto simp: elementWritten_frame(1) split: option.splits)
next
  case (AcquireRead t w)
  with assms show ?thesis by (auto simp: getNextReadIndex_def split: if_splits)
next
  case CommitRead
  with assms obtain r' where rd: "elementRead (ring s) = Some r'" and "ring s' = r'"
    by (auto split: option.splits)
  then show ?thesis by (simp add: elementRead_frame(1) [OF rd])
qed

lemma spsc_run_length:
  "spsc_run s cs = Some s' \<Longrightarrow>
   length (m_vTCircularBuffer (ring s')) = length (m_vTCircularBuffer (ring s))"
proof (induction cs arbitrary: s)
  case Nil
  then show ?case by simp
next
  case (Cons c cs)
  then obtain s1 where step: "spsc_step s c = Some s1" and run: "spsc_run s1 cs = Some s'"
    by (auto split: option.splits)
  show ?case using Cons.IH [OF run] spsc_step_length [OF step] by simp
qed

lemma ring_inv_bounds:
  assumes "ring_inv r" and "length (m_vTCircularBuffer r) \<noteq> 0"
  shows "unat (m_u32Level r) \<le> length (m_vTCircularBuffer r)"
    and "unat (m_u32ReadIndex r) < length (m_vTCircularBuffer r)"
    and "unat (m_u32WriteIndex r) < length (m_vTCircularBuffer r)"
  using assms by (auto simp: ring_inv_def)


lemma ring_one_batch_fields:
  "length (m_vTCircularBuffer ring_one_batch) = 3"
  "length (m_vi64Timestamps_us ring_one_batch) = 3"
  "m_u32ReadIndex ring_one_batch = 0"
  "m_u32WriteIndex ring_one_batch = 1"
  "m_u32Level ring_one_batch = 1"
  by (simp_all add: ring_one_batch_def)

lemma ring_inv_cursors_not_sentinel:
  assumes "ring_inv r"
  shows "m_u32ReadIndex r \<noteq> - 1" and "m_u32WriteIndex r \<noteq> - 1"
proof -
  have m1: "unat (- 1 :: 32 word) = 4294967295" by (simp add: unsigned_minus_1_eq_mask mask_eq_exp_minus_1)
  have n: "length (m_vTCircularBuffer r) < 2 ^ 32" using assms by (simp add: ring_inv_def)
  have "unat (m_u32ReadIndex r) < 4294967295 \<and> unat (m_u32WriteIndex r) < 4294967295"
    using assms n by (auto simp: ring_inv_def)
  then show "m_u32ReadIndex r \<noteq> - 1" and "m_u32WriteIndex r \<noteq> - 1"
    using m1 by auto
qed

lemma vector_resize_nth:
  "i < n \<Longrightarrow> vector_resize n v xs ! i = (if i < length xs then xs ! i else v)"
  by (simp add: vector_resize_def nth_append)

lemma timed_wait_iff:
  "\<not> timed_wait t w \<longleftrightarrow> (case w of None \<Rightarrow> True | Some d \<Rightarrow> t \<le> d)"
  by (auto simp: timed_wait_def split: option.splits)

lemma clear_Some:
  assumes "length (m_vi64Timestamps_us r) = length (m_vTCircularBuffer r)"
  shows "clear r = Some (r\<lparr>m_u32ReadIndex := 0, m_u32WriteIndex := 0, m_u32Level := 0,
           m_vTCircularBuffer := map setEmpty (m_vTCircularBuffer r),
           m_vi64Timestamps_us := replicate (length (m_vTCircularBuffer r)) 0,
           m_oConditionWritePossible := m_oConditionWritePossible r @ [notify_one]\<rparr>)"
proof -
  let ?r0 = "r\<lparr>m_u32ReadIndex := 0, m_u32WriteIndex := 0, m_u32Level := 0\<rparr>"
  have "length (m_vi64Timestamps_us ?r0) = length (m_vTCircularBuffer ?r0)"
    using assms by simp
  from clear_loop_eq [OF this, of 0] show ?thesis by (simp add: clear_def)
qed

section \<open>Claims\<close>

text \<open>
  Claim C1.  Start from a freshly constructed ring with \<open>N > 0\<close> slots and let producer
  and consumer make any sequence of calls in which every commit follows a successful
  acquire of its role (write acquired with the ring not full, read acquired with the ring
  not empty).  Then after every call of the sequence the slot count is still \<open>N\<close>,
  \<open>level \<le> N\<close>, and \<open>readIndex\<close> and \<open>writeIndex\<close> are below \<open>N\<close>; the unsigned
  counters are never negative.  "After every call" is: for every prefix \<open>take k calls\<close>.
\<close>

theorem spsc_level_and_cursors_bounded:
  assumes slots: "n \<noteq> 0"
    and run: "spsc_run (spsc_start (new_cThreadSafeCircularBuffer n m)) calls
              = Some (s :: ('a::zero) spsc)"
  shows "\<exists>s1 :: 'a spsc.
           spsc_run (spsc_start (new_cThreadSafeCircularBuffer n m)) (take k calls) = Some s1 \<and>
           length (m_vTCircularBuffer (ring s1)) = unat n \<and>
           unat (m_u32Level (ring s1)) \<le> unat n \<and>
           unat (m_u32ReadIndex (ring s1)) < unat n \<and>
           unat (m_u32WriteIndex (ring s1)) < unat n"
proof -
  let ?s0 = "spsc_start (new_cThreadSafeCircularBuffer n m) :: 'a spsc"
  obtain s1 where run1: "spsc_run ?s0 (take k calls) = Some s1"
    using spsc_run_take [OF run] by blast
  have ring0: "ring ?s0 = new_cThreadSafeCircularBuffer n m" by (simp add: spsc_start_def)
  have inv0: "spsc_inv ?s0" by (rule spsc_inv_start [OF ring_inv_new])
  have "[] @ committed_writes ?s0 = committed_reads ?s0 @ occupied (ring ?s0)"
    by (simp add: spsc_start_def occupied_def new_fields)
  from spsc_run_fifo [OF inv0 run1 this] have inv1: "ring_inv (ring s1)"
    by (simp add: spsc_inv_def)
  have len: "length (m_vTCircularBuffer (ring s1)) = unat n"
    using spsc_run_length [OF run1] by (simp add: ring0 new_fields)
  have "unat n \<noteq> 0" using slots by (simp add: u32_pos)
  then have "length (m_vTCircularBuffer (ring s1)) \<noteq> 0" by (simp add: len)
  from ring_inv_bounds [OF inv1 this] run1 len show ?thesis by simp
qed

theorem spsc_level_and_cursors_bounded_witness:
  "(3 :: 32 word) \<noteq> 0 \<and>
   spsc_run (spsc_start (new_cThreadSafeCircularBuffer 3 4 :: int cThreadSafeCircularBuffer))
     [AcquireWrite 10 None, CommitWrite, AcquireRead 10 None, CommitRead] \<noteq> None \<and>
   (\<exists>s1 :: int spsc. spsc_run (spsc_start (new_cThreadSafeCircularBuffer 3 4))
            (take 3 [AcquireWrite 10 None, CommitWrite, AcquireRead 10 None, CommitRead]) = Some s1 \<and>
         length (m_vTCircularBuffer (ring s1)) = unat (3 :: 32 word) \<and>
         unat (m_u32Level (ring s1)) \<le> unat (3 :: 32 word) \<and>
         unat (m_u32ReadIndex (ring s1)) < unat (3 :: 32 word) \<and>
         unat (m_u32WriteIndex (ring s1)) < unat (3 :: 32 word))"
proof -
  have slots: "(3 :: 32 word) \<noteq> 0" by simp
  have ok: "spsc_run (spsc_start (new_cThreadSafeCircularBuffer 3 4 :: int cThreadSafeCircularBuffer))
     [AcquireWrite 10 None, CommitWrite, AcquireRead 10 None, CommitRead] \<noteq> None"
    by code_simp
  then obtain s where run:
    "spsc_run (spsc_start (new_cThreadSafeCircularBuffer 3 4 :: int cThreadSafeCircularBuffer))
       [AcquireWrite 10 None, CommitWrite, AcquireRead 10 None, CommitRead] = Some s"
    by blast
  show ?thesis
    using slots ok spsc_level_and_cursors_bounded [OF slots run, of 3] by blast
qed

text \<open>
  FIFO delivery when no acquire waits.  For a ring that satisfies the data-model
  invariant and any run of the two roles in which every acquire finds the ring not full
  (producer) or not empty (consumer), the indices the producer committed, put behind the
  slots that were occupied at the start, are the indices the consumer committed followed
  by the slots still occupied.  For a ring that starts empty the committed read indices
  are therefore an initial segment of the committed write indices, whatever the
  interleaving of the calls.
\<close>

lemma spsc_fifo_without_waits:
  assumes inv: "ring_inv r0"
    and run: "spsc_run (spsc_start r0) calls = Some s"
  shows "occupied r0 @ committed_writes s = committed_reads s @ occupied (ring s) \<and>
         (m_u32Level r0 = 0 \<longrightarrow>
            committed_reads s = take (length (committed_reads s)) (committed_writes s))"
proof -
  have "occupied r0 @ committed_writes (spsc_start r0)
        = committed_reads (spsc_start r0) @ occupied (ring (spsc_start r0))"
    by (simp add: spsc_start_def)
  from spsc_run_fifo [OF spsc_inv_start [OF inv] run this]
  have eq: "occupied r0 @ committed_writes s = committed_reads s @ occupied (ring s)" by simp
  have "committed_reads s = take (length (committed_reads s)) (committed_writes s)"
    if "m_u32Level r0 = 0"
  proof -
    have "occupied r0 = []" using that by (simp add: occupied_def)
    with eq have "committed_writes s = committed_reads s @ occupied (ring s)" by simp
    then show ?thesis by (metis append_eq_conv_conj)
  qed
  with eq show ?thesis by blast
qed

lemma spsc_fifo_without_waits_example:
  "ring_inv (new_cThreadSafeCircularBuffer 3 4 :: int cThreadSafeCircularBuffer) \<and>
   spsc_run (spsc_start (new_cThreadSafeCircularBuffer 3 4 :: int cThreadSafeCircularBuffer))
     [AcquireWrite 10 None, CommitWrite, AcquireWrite 10 None, AcquireRead 10 None,
      CommitWrite, CommitRead, AcquireRead 0 None, CommitRead] \<noteq> None \<and>
   m_u32Level (new_cThreadSafeCircularBuffer 3 4 :: int cThreadSafeCircularBuffer) = 0 \<and>
   committed_reads (the (spsc_run
       (spsc_start (new_cThreadSafeCircularBuffer 3 4 :: int cThreadSafeCircularBuffer))
       [AcquireWrite 10 None, CommitWrite, AcquireWrite 10 None, AcquireRead 10 None,
        CommitWrite, CommitRead, AcquireRead 0 None, CommitRead]))
   = take (length (committed_reads (the (spsc_run
       (spsc_start (new_cThreadSafeCircularBuffer 3 4 :: int cThreadSafeCircularBuffer))
       [AcquireWrite 10 None, CommitWrite, AcquireWrite 10 None, AcquireRead 10 None,
        CommitWrite, CommitRead, AcquireRead 0 None, CommitRead]))))
      (committed_writes (the (spsc_run
       (spsc_start (new_cThreadSafeCircularBuffer 3 4 :: int cThreadSafeCircularBuffer))
       [AcquireWrite 10 None, CommitWrite, AcquireWrite 10 None, AcquireRead 10 None,
        CommitWrite, CommitRead, AcquireRead 0 None, CommitRead])))"
proof -
  let ?r0 = "new_cThreadSafeCircularBuffer 3 4 :: int cThreadSafeCircularBuffer"
  let ?calls = "[AcquireWrite 10 None, CommitWrite, AcquireWrite 10 None, AcquireRead 10 None,
      CommitWrite, CommitRead, AcquireRead 0 None, CommitRead]"
  have inv: "ring_inv ?r0" by (rule ring_inv_new)
  have empty: "m_u32Level ?r0 = 0" by (simp add: new_fields)
  have ok: "spsc_run (spsc_start ?r0) ?calls \<noteq> None" by code_simp
  then obtain s where run: "spsc_run (spsc_start ?r0) ?calls = Some s" by blast
  have the_s: "the (spsc_run (spsc_start ?r0) ?calls) = s" by (simp only: run option.sel)
  show ?thesis
    unfolding the_s using inv ok empty spsc_fifo_without_waits [OF inv run] by blast
qed

text \<open>
  Claim C3.  FIFO delivery: the successful \<open>getNextReadIndex\<close> calls of the consumer,
  each followed by its \<open>elementRead\<close>, return the indices of the producer's commits in
  commit order, whatever the interleaving.  Both acquire methods test the level once,
  with \<open>if\<close>, and return the cursor after any wake-up.  On the freshly constructed ring
  of 3 slots a \<open>getNextReadIndex\<close> with a timeout of 1000 ms whose wait ends after 50 ms
  returns index 0 although the level is 0 and nothing has been committed; the
  \<open>elementRead\<close> that follows wraps the level to 4294967295, after which
  \<open>tryToGetNextWriteIndex\<close> reports the ring as full.  Counting every acquire that
  returns an index, the consumer has committed \<open>[0]\<close> and the producer nothing, so the
  indices read are not the indices written.
\<close>

theorem woken_acquire_on_empty_ring_delivers_unwritten_slot:
  "m_u32Level (new_cThreadSafeCircularBuffer 3 4 :: int cThreadSafeCircularBuffer) = 0 \<and>
   getNextReadIndex (new_cThreadSafeCircularBuffer 3 4 :: int cThreadSafeCircularBuffer) 1000 (Some 50)
     = (new_cThreadSafeCircularBuffer 3 4, 0) \<and>
   map_option m_u32Level
     (elementRead (new_cThreadSafeCircularBuffer 3 4 :: int cThreadSafeCircularBuffer))
     = Some 4294967295 \<and>
   map_option (snd \<circ> tryToGetNextWriteIndex)
     (elementRead (new_cThreadSafeCircularBuffer 3 4 :: int cThreadSafeCircularBuffer))
     = Some (- 1) \<and>
   map_option committed_reads
     (successful_run (spsc_start (new_cThreadSafeCircularBuffer 3 4 :: int cThreadSafeCircularBuffer))
        [AcquireRead 1000 (Some 50), CommitRead])
     = Some [0] \<and>
   map_option committed_writes
     (successful_run (spsc_start (new_cThreadSafeCircularBuffer 3 4 :: int cThreadSafeCircularBuffer))
        [AcquireRead 1000 (Some 50), CommitRead])
     = Some []"
proof -
  let ?r = "new_cThreadSafeCircularBuffer 3 4 :: int cThreadSafeCircularBuffer"
  have empty: "m_u32Level ?r = 0" by (simp add: new_fields)
  have acq: "getNextReadIndex ?r 1000 (Some 50) = (?r, 0)"
    by (simp add: getNextReadIndex_def timed_wait_def new_fields)
  obtain r' where rd: "elementRead ?r = Some r'"
    using elementRead_Some [of ?r] by (auto simp: new_fields)
  have lv: "m_u32Level r' = 4294967295"
    by (simp add: elementRead_frame(5) [OF rd] empty)
  have len: "length (m_vTCircularBuffer r') = 3"
    unfolding elementRead_frame(1) [OF rd] length_list_update by (subst new_fields(1)) simp
  have full: "snd (tryToGetNextWriteIndex r') = - 1"
    by (simp add: tryToGetNextWriteIndex_def lv len)
  have run: "successful_run (spsc_start ?r) [AcquireRead 1000 (Some 50), CommitRead]
      = Some ((spsc_start ?r)\<lparr>ring := r', consumer_index := None, committed_reads := [0]\<rparr>)"
    by (simp add: acq rd spsc_start_def)
  show ?thesis
    unfolding run rd by (simp add: empty acq lv full spsc_start_def)
qed

text \<open>
  Claim C2.  In a ring state whose slot count fits 32 bits: when the ring is not full
  and the write cursor points at a slot, \<open>getNextWriteIndex\<close> returns the write cursor
  and the \<open>elementWritten\<close> that follows raises the level by exactly one and moves the
  write cursor by one modulo the slot count; when the ring is not empty and the read
  cursor points at a slot, \<open>getNextReadIndex\<close> returns the read cursor and the
  \<open>elementRead\<close> that follows lowers the level by exactly one and moves the read
  cursor by one modulo the slot count.  In the ring of 3 slots of capacity 4, after two
  write commits and one read commit the level is 1, the read cursor is 1 and the next
  \<open>getNextWriteIndex\<close> returns index 2, not the vacated index 0.
\<close>

theorem acquire_commit_advances_cursor:
  fixes r :: "('a::zero) cThreadSafeCircularBuffer"
  assumes size: "length (m_vTCircularBuffer r) < 2 ^ 32"
  shows "(unat (m_u32Level r) < length (m_vTCircularBuffer r) \<and>
          unat (m_u32WriteIndex r) < length (m_vTCircularBuffer r) \<longrightarrow>
            snd (getNextWriteIndex r t w) = m_u32WriteIndex r \<and>
            unat (m_u32Level (elementWritten (fst (getNextWriteIndex r t w))))
              = unat (m_u32Level r) + 1 \<and>
            unat (m_u32WriteIndex (elementWritten (fst (getNextWriteIndex r t w))))
              = (unat (m_u32WriteIndex r) + 1) mod length (m_vTCircularBuffer r)) \<and>
         (m_u32Level r \<noteq> 0 \<and> unat (m_u32ReadIndex r) < length (m_vTCircularBuffer r) \<longrightarrow>
            snd (getNextReadIndex r t' w') = m_u32ReadIndex r \<and>
            (\<exists>r'. elementRead (fst (getNextReadIndex r t' w')) = Some r' \<and>
                  unat (m_u32Level r') + 1 = unat (m_u32Level r) \<and>
                  unat (m_u32ReadIndex r')
                    = (unat (m_u32ReadIndex r) + 1) mod length (m_vTCircularBuffer r))) \<and>
         (\<exists>r3. elementRead (elementWritten (elementWritten
                   (new_cThreadSafeCircularBuffer 3 4 :: ('a::zero) cThreadSafeCircularBuffer)))
                 = Some r3 \<and>
               getLevel r3 = 1 \<and> m_u32ReadIndex r3 = 1 \<and>
               getNextWriteIndex r3 t w = (r3, 2))"
proof (intro conjI impI)
  assume "unat (m_u32Level r) < length (m_vTCircularBuffer r) \<and>
          unat (m_u32WriteIndex r) < length (m_vTCircularBuffer r)"
  then have room: "unat (m_u32Level r) < length (m_vTCircularBuffer r)"
    and wr: "unat (m_u32WriteIndex r) < length (m_vTCircularBuffer r)" by simp_all
  have acq: "getNextWriteIndex r t w = (r, m_u32WriteIndex r)"
    using room by (simp add: getNextWriteIndex_def)
  show "snd (getNextWriteIndex r t w) = m_u32WriteIndex r" by (simp add: acq)
  show "unat (m_u32Level (elementWritten (fst (getNextWriteIndex r t w))))
          = unat (m_u32Level r) + 1"
    using elementWritten_level [OF size room] by (simp add: acq)
  show "unat (m_u32WriteIndex (elementWritten (fst (getNextWriteIndex r t w))))
          = (unat (m_u32WriteIndex r) + 1) mod length (m_vTCircularBuffer r)"
    using elementWritten_cursor [OF size wr] by (simp add: acq)
next
  assume "m_u32Level r \<noteq> 0 \<and> unat (m_u32ReadIndex r) < length (m_vTCircularBuffer r)"
  then have some: "m_u32Level r \<noteq> 0"
    and rd: "unat (m_u32ReadIndex r) < length (m_vTCircularBuffer r)" by simp_all
  have acq: "getNextReadIndex r t' w' = (r, m_u32ReadIndex r)"
    using some by (simp add: getNextReadIndex_def)
  show "snd (getNextReadIndex r t' w') = m_u32ReadIndex r" by (simp add: acq)
  obtain r' where r': "elementRead r = Some r'" using elementRead_Some [OF rd] by blast
  have "0 < unat (m_u32Level r)" using some by (simp add: u32_pos)
  then have "unat (m_u32Level r') + 1 = unat (m_u32Level r)"
    using elementRead_level [OF r' some] by simp
  moreover have "unat (m_u32ReadIndex r')
      = (unat (m_u32ReadIndex r) + 1) mod length (m_vTCircularBuffer r)"
    using elementRead_cursor [OF r' size] by simp
  ultimately show "\<exists>r'. elementRead (fst (getNextReadIndex r t' w')) = Some r' \<and>
                  unat (m_u32Level r') + 1 = unat (m_u32Level r) \<and>
                  unat (m_u32ReadIndex r')
                    = (unat (m_u32ReadIndex r) + 1) mod length (m_vTCircularBuffer r)"
    using r' by (simp add: acq)
next
  let ?r0 = "new_cThreadSafeCircularBuffer 3 4 :: 'a cThreadSafeCircularBuffer"
  let ?r1 = "elementWritten ?r0"
  let ?r2 = "elementWritten ?r1"
  have len0: "length (m_vTCircularBuffer ?r0) = 3" by (subst new_fields(1)) simp
  have len1: "length (m_vTCircularBuffer ?r1) = 3" by (simp add: elementWritten_frame len0)
  have len2: "length (m_vTCircularBuffer ?r2) = 3" by (simp add: elementWritten_frame len0)
  have l1: "m_u32Level ?r1 = 1" and w1: "m_u32WriteIndex ?r1 = 1" and i1: "m_u32ReadIndex ?r1 = 0"
    by (simp_all add: elementWritten_def Let_def new_fields)
  have l2: "m_u32Level ?r2 = 2" and i2: "m_u32ReadIndex ?r2 = 0"
    by (simp_all add: elementWritten_frame new_fields)
  have w2: "m_u32WriteIndex ?r2 = 2"
    by (simp add: elementWritten_def [of ?r1] Let_def len1 w1)
  obtain r3 where r3: "elementRead ?r2 = Some r3"
    using elementRead_Some [of ?r2] by (auto simp: i2 len2)
  have len3: "length (m_vTCircularBuffer r3) = 3"
    by (simp add: elementRead_frame(1) [OF r3] len2)
  have l3: "m_u32Level r3 = 1" by (simp add: elementRead_frame(5) [OF r3] l2)
  have w3: "m_u32WriteIndex r3 = 2" by (simp add: elementRead_frame(3) [OF r3] w2)
  have "unat (m_u32ReadIndex r3) = 1"
    using elementRead_cursor [OF r3] by (simp add: len2 i2)
  then have i3: "m_u32ReadIndex r3 = 1" by (metis unat_1 word_unat_eq_iff)
  have "getNextWriteIndex r3 t w = (r3, 2)"
    by (simp add: getNextWriteIndex_def len3 l3 w3)
  then show "\<exists>r3. elementRead ?r2 = Some r3 \<and> getLevel r3 = 1 \<and> m_u32ReadIndex r3 = 1 \<and>
               getNextWriteIndex r3 t w = (r3, 2)"
    using r3 l3 i3 by (simp add: getLevel_def)
qed

theorem acquire_commit_advances_cursor_witness:
  "length (m_vTCircularBuffer ring_one_batch) < 2 ^ 32 \<and>
   unat (m_u32Level ring_one_batch) < length (m_vTCircularBuffer ring_one_batch) \<and>
   unat (m_u32WriteIndex ring_one_batch) < length (m_vTCircularBuffer ring_one_batch) \<and>
   m_u32Level ring_one_batch \<noteq> 0 \<and>
   unat (m_u32ReadIndex ring_one_batch) < length (m_vTCircularBuffer ring_one_batch) \<and>
   snd (getNextWriteIndex ring_one_batch 10 None) = 1 \<and>
   unat (m_u32Level (elementWritten (fst (getNextWriteIndex ring_one_batch 10 None)))) = 2 \<and>
   unat (m_u32WriteIndex (elementWritten (fst (getNextWriteIndex ring_one_batch 10 None)))) = 2 \<and>
   snd (getNextReadIndex ring_one_batch 10 None) = 0 \<and>
   (\<exists>r'. elementRead (fst (getNextReadIndex ring_one_batch 10 None)) = Some r' \<and>
         unat (m_u32Level r') + 1 = 1 \<and> unat (m_u32ReadIndex r') = 1)"
proof -
  have size: "length (m_vTCircularBuffer ring_one_batch) < 2 ^ 32"
    by (simp add: ring_one_batch_fields)
  show ?thesis
    using acquire_commit_advances_cursor [OF size, of 10 None 10 None]
    by (simp add: ring_one_batch_fields)
qed

text \<open>
  Claim C6.  In every ring state of the data model, the ring without slots included,
  \<open>tryToGetNextWriteIndex\<close> returns the sentinel \<open>-1\<close> if and only if the ring is full
  (\<open>level \<ge> N\<close>); when the ring is not full it returns \<open>writeIndex\<close>; and in either
  case the ring is left as it was.  The method has no wait: its model takes no
  environment and calls no \<open>timed_wait\<close>.
\<close>

theorem tryToGetNextWriteIndex_sentinel_iff_full:
  assumes "ring_inv r"
  shows "(snd (tryToGetNextWriteIndex r) = - 1
            \<longleftrightarrow> length (m_vTCircularBuffer r) \<le> unat (m_u32Level r)) \<and>
         (unat (m_u32Level r) < length (m_vTCircularBuffer r)
            \<longrightarrow> snd (tryToGetNextWriteIndex r) = m_u32WriteIndex r) \<and>
         fst (tryToGetNextWriteIndex r) = r"
  using ring_inv_cursors_not_sentinel(2) [OF assms]
  by (simp add: tryToGetNextWriteIndex_def)

theorem tryToGetNextWriteIndex_sentinel_iff_full_witness:
  "ring_inv (new_cThreadSafeCircularBuffer 0 4 :: int cThreadSafeCircularBuffer) \<and>
   snd (tryToGetNextWriteIndex (new_cThreadSafeCircularBuffer 0 4 :: int cThreadSafeCircularBuffer)) = - 1 \<and>
   length (m_vTCircularBuffer (new_cThreadSafeCircularBuffer 0 4 :: int cThreadSafeCircularBuffer))
     \<le> unat (m_u32Level (new_cThreadSafeCircularBuffer 0 4 :: int cThreadSafeCircularBuffer)) \<and>
   ring_inv ring_one_batch \<and>
   unat (m_u32Level ring_one_batch) < length (m_vTCircularBuffer ring_one_batch) \<and>
   tryToGetNextWriteIndex ring_one_batch = (ring_one_batch, 1)"
proof -
  let ?r = "new_cThreadSafeCircularBuffer 0 4 :: int cThreadSafeCircularBuffer"
  have inv: "ring_inv ?r" by (rule ring_inv_new)
  have full: "length (m_vTCircularBuffer ?r) \<le> unat (m_u32Level ?r)"
    by (simp add: new_fields)
  have inv1: "ring_inv ring_one_batch" by (simp add: ring_inv_def ring_one_batch_def)
  have room: "unat (m_u32Level ring_one_batch) < length (m_vTCircularBuffer ring_one_batch)"
    by (simp add: ring_one_batch_fields)
  have "tryToGetNextWriteIndex ring_one_batch = (ring_one_batch, 1)"
    using tryToGetNextWriteIndex_sentinel_iff_full [OF inv1] room
    by (simp add: prod_eq_iff ring_one_batch_fields)
  then show ?thesis
    using inv full inv1 room tryToGetNextWriteIndex_sentinel_iff_full [OF inv] by simp
qed

text \<open>
  Claim C7.  \<open>getNextReadIndex\<close> and \<open>getNextWriteIndex\<close> leave every member of the
  ring as it was, whether they return an index or the sentinel.  So with \<open>level > 0\<close> a
  second \<open>getNextReadIndex\<close>, whatever its timeout and wait, returns the same index as
  the first, namely \<open>readIndex\<close>; and with \<open>level < N\<close> a second \<open>getNextWriteIndex\<close>
  returns the same index as the first, namely \<open>writeIndex\<close>.
\<close>

theorem acquire_mutates_nothing:
  "fst (getNextReadIndex r t1 w1) = r \<and>
   fst (getNextWriteIndex r t2 w2) = r \<and>
   (m_u32Level r \<noteq> 0 \<longrightarrow>
      snd (getNextReadIndex r t1 w1) = m_u32ReadIndex r \<and>
      snd (getNextReadIndex (fst (getNextReadIndex r t1 w1)) t3 w3)
        = snd (getNextReadIndex r t1 w1)) \<and>
   (unat (m_u32Level r) < length (m_vTCircularBuffer r) \<longrightarrow>
      snd (getNextWriteIndex r t2 w2) = m_u32WriteIndex r \<and>
      snd (getNextWriteIndex (fst (getNextWriteIndex r t2 w2)) t4 w4)
        = snd (getNextWriteIndex r t2 w2))"
  by (simp add: getNextReadIndex_def getNextWriteIndex_def)

theorem acquire_mutates_nothing_witness:
  "m_u32Level ring_one_batch \<noteq> 0 \<and>
   unat (m_u32Level ring_one_batch) < length (m_vTCircularBuffer ring_one_batch) \<and>
   getNextReadIndex ring_one_batch 0 None = (ring_one_batch, 0) \<and>
   snd (getNextReadIndex (fst (getNextReadIndex ring_one_batch 0 None)) 25 (Some 3)) = 0 \<and>
   getNextWriteIndex ring_one_batch 0 None = (ring_one_batch, 1) \<and>
   snd (getNextWriteIndex (fst (getNextWriteIndex ring_one_batch 0 None)) 25 (Some 3)) = 1"
proof -
  have some: "m_u32Level ring_one_batch \<noteq> 0"
    and room: "unat (m_u32Level ring_one_batch) < length (m_vTCircularBuffer ring_one_batch)"
    by (simp_all add: ring_one_batch_fields)
  note pure = acquire_mutates_nothing [of ring_one_batch 0 None 0 None 25 "Some 3" 25 "Some 3"]
  have rd: "getNextReadIndex ring_one_batch 0 None = (ring_one_batch, 0)"
    using pure some by (simp add: prod_eq_iff ring_one_batch_fields)
  have wr: "getNextWriteIndex ring_one_batch 0 None = (ring_one_batch, 1)"
    using pure room by (simp add: prod_eq_iff ring_one_batch_fields)
  have "snd (getNextReadIndex (fst (getNextReadIndex ring_one_batch 0 None)) 25 (Some 3)) = 0"
    using pure some rd by (metis snd_conv)
  moreover have "snd (getNextWriteIndex (fst (getNextWriteIndex ring_one_batch 0 None)) 25 (Some 3)) = 1"
    using pure room wr by (metis snd_conv)
  ultimately show ?thesis using some room rd wr by blast
qed

text \<open>
  Claim C9.  The claim is that \<open>dataSize()\<close> returns the full 32-bit span length and
  \<open>allocationSize()\<close> the storage length, for all lengths up to the 32-bit range.  Both
  methods return \<open>unsigned short\<close>, so they keep the low 16 bits only: a span of length
  65536 set with \<open>setDataSpan\<close> is reported as 0, and so is a storage of 65536 elements.
\<close>

theorem slot_queries_keep_low_16_bits:
  "m_u32DataSize (setDataSpan (value_initialized_element :: int cBufferElement) 0 65536) = 65536 \<and>
   dataSize (setDataSpan (value_initialized_element :: int cBufferElement) 0 65536) = 0 \<and>
   length (m_vTElement (cBufferElement_resize (value_initialized_element :: int cBufferElement) 65536))
     = 65536 \<and>
   allocationSize (cBufferElement_resize (value_initialized_element :: int cBufferElement) 65536) = 0"
  by (simp add: dataSize_def setDataSpan_def allocationSize_def cBufferElement_resize_def
      vector_resize_def)

text \<open>
  Claim C10.  When the read cursor points at a slot, \<open>elementRead\<close> sets the span start
  and span length of that slot to zero and leaves its storage elements as they were;
  the slot count, every other slot \<open>j\<close> and all timestamps are unchanged.
\<close>

theorem elementRead_clears_span_only:
  assumes "unat (m_u32ReadIndex r) < length (m_vTCircularBuffer r)"
  shows "\<exists>r'. elementRead r = Some r' \<and>
           m_u32DataStartIndex (m_vTCircularBuffer r' ! unat (m_u32ReadIndex r)) = 0 \<and>
           m_u32DataSize (m_vTCircularBuffer r' ! unat (m_u32ReadIndex r)) = 0 \<and>
           m_vTElement (m_vTCircularBuffer r' ! unat (m_u32ReadIndex r))
             = m_vTElement (m_vTCircularBuffer r ! unat (m_u32ReadIndex r)) \<and>
           length (m_vTCircularBuffer r') = length (m_vTCircularBuffer r) \<and>
           (j \<noteq> unat (m_u32ReadIndex r) \<longrightarrow>
              m_vTCircularBuffer r' ! j = m_vTCircularBuffer r ! j) \<and>
           m_vi64Timestamps_us r' = m_vi64Timestamps_us r"
proof -
  obtain r' where r': "elementRead r = Some r'" using elementRead_Some [OF assms] by blast
  show ?thesis
    using assms r' elementRead_frame(1,2) [OF r'] by (simp add: setEmpty_def)
qed

theorem elementRead_clears_span_only_witness:
  "unat (m_u32ReadIndex ring_one_batch) < length (m_vTCircularBuffer ring_one_batch) \<and>
   m_u32DataSize (m_vTCircularBuffer ring_one_batch ! 0) = 4 \<and>
   (\<exists>r'. elementRead ring_one_batch = Some r' \<and>
         m_u32DataStartIndex (m_vTCircularBuffer r' ! 0) = 0 \<and>
         m_u32DataSize (m_vTCircularBuffer r' ! 0) = 0 \<and>
         m_vTElement (m_vTCircularBuffer r' ! 0) = [1, 2, 3, 4] \<and>
         length (m_vTCircularBuffer r') = 3 \<and>
         m_vTCircularBuffer r' ! 1 = m_vTCircularBuffer ring_one_batch ! 1 \<and>
         m_vi64Timestamps_us r' = [7, 0, 0])"
proof -
  have rd: "unat (m_u32ReadIndex ring_one_batch) < length (m_vTCircularBuffer ring_one_batch)"
    by (simp add: ring_one_batch_fields)
  have slot: "m_vTCircularBuffer ring_one_batch ! 0
      = \<lparr>m_vTElement = [1, 2, 3, 4], m_u32DataStartIndex = 0, m_u32DataSize = 4\<rparr>"
    and ts: "m_vi64Timestamps_us ring_one_batch = [7, 0, 0]"
    by (simp_all add: ring_one_batch_def)
  show ?thesis
    using rd elementRead_clears_span_only [OF rd, of 1]
    by (simp add: ring_one_batch_fields slot ts)
qed

text \<open>
  Claim C4.  The claim is that \<open>resize\<close> reinitialises the ring: no data kept, and
  \<open>readIndex\<close>, \<open>writeIndex\<close> and \<open>level\<close> reset as at construction.  The method only
  resizes the two vectors and the storage of every slot; it assigns none of the three
  counters.  What holds: after \<open>resize r n m\<close> there are \<open>n\<close> slots and \<open>n\<close> timestamps
  and every slot \<open>i < n\<close> has \<open>m\<close> storage elements, while \<open>readIndex\<close>, \<open>writeIndex\<close>
  and \<open>level\<close> are what they were; a slot that existed before keeps its span and its
  storage up to the new capacity (cut or filled up with zeros), a timestamp that existed
  before keeps its value, and only the slots and timestamps beyond the old count are
  value-initialised.  The counters are zero after construction because the constructor's
  initialisers set them, not because of \<open>resize\<close>.
\<close>

theorem resize_keeps_counters_and_data:
  fixes r :: "('a::zero) cThreadSafeCircularBuffer"
  assumes i: "i < unat n"
  shows "m_u32ReadIndex (resize r n m) = m_u32ReadIndex r \<and>
         m_u32WriteIndex (resize r n m) = m_u32WriteIndex r \<and>
         m_u32Level (resize r n m) = m_u32Level r \<and>
         length (m_vTCircularBuffer (resize r n m)) = unat n \<and>
         length (m_vi64Timestamps_us (resize r n m)) = unat n \<and>
         length (m_vTElement (m_vTCircularBuffer (resize r n m) ! i)) = unat m \<and>
         (i < length (m_vTCircularBuffer r) \<longrightarrow>
            m_u32DataStartIndex (m_vTCircularBuffer (resize r n m) ! i)
              = m_u32DataStartIndex (m_vTCircularBuffer r ! i) \<and>
            m_u32DataSize (m_vTCircularBuffer (resize r n m) ! i)
              = m_u32DataSize (m_vTCircularBuffer r ! i) \<and>
            m_vTElement (m_vTCircularBuffer (resize r n m) ! i)
              = vector_resize (unat m) 0 (m_vTElement (m_vTCircularBuffer r ! i)) \<and>
            (j < unat m \<and> j < length (m_vTElement (m_vTCircularBuffer r ! i)) \<longrightarrow>
               m_vTElement (m_vTCircularBuffer (resize r n m) ! i) ! j
                 = m_vTElement (m_vTCircularBuffer r ! i) ! j)) \<and>
         (i < length (m_vi64Timestamps_us r) \<longrightarrow>
            m_vi64Timestamps_us (resize r n m) ! i = m_vi64Timestamps_us r ! i) \<and>
         (length (m_vTCircularBuffer r) \<le> i \<longrightarrow>
            m_vTCircularBuffer (resize r n m) ! i
              = \<lparr>m_vTElement = replicate (unat m) 0, m_u32DataStartIndex = 0, m_u32DataSize = 0\<rparr>) \<and>
         (length (m_vi64Timestamps_us r) \<le> i \<longrightarrow> m_vi64Timestamps_us (resize r n m) ! i = 0)"
proof -
  let ?old = "m_vTCircularBuffer r"
  have slot: "m_vTCircularBuffer (resize r n m) ! i
      = cBufferElement_resize (if i < length ?old then ?old ! i else value_initialized_element) m"
    using i by (simp add: resize_fields length_vector_resize vector_resize_nth)
  have ts: "m_vi64Timestamps_us (resize r n m) ! i
      = (if i < length (m_vi64Timestamps_us r) then m_vi64Timestamps_us r ! i else 0)"
    using i by (simp add: resize_fields vector_resize_nth)
  have fresh: "cBufferElement_resize (value_initialized_element :: 'a cBufferElement) m
      = \<lparr>m_vTElement = replicate (unat m) 0, m_u32DataStartIndex = 0, m_u32DataSize = 0\<rparr>"
    by (simp add: cBufferElement_resize_def vector_resize_def)
  have keep: "m_u32DataStartIndex (cBufferElement_resize e m) = m_u32DataStartIndex e"
    "m_u32DataSize (cBufferElement_resize e m) = m_u32DataSize e"
    "m_vTElement (cBufferElement_resize e m) = vector_resize (unat m) 0 (m_vTElement e)"
    for e :: "'a cBufferElement"
    by (simp_all add: cBufferElement_resize_def)
  show ?thesis
    unfolding slot ts
    by (simp add: resize_fields(3-5) resize_lengths length_vector_resize keep fresh
        vector_resize_nth)
qed

theorem resize_keeps_counters_and_data_witness:
  "(0 :: nat) < unat (2 :: 32 word) \<and>
   0 < length (m_vTCircularBuffer ring_one_batch) \<and>
   (1 :: nat) < unat (3 :: 32 word) \<and>
   1 < length (m_vTElement (m_vTCircularBuffer ring_one_batch ! 0)) \<and>
   0 < length (m_vi64Timestamps_us ring_one_batch) \<and>
   m_u32ReadIndex (resize ring_one_batch 2 3) = 0 \<and>
   m_u32WriteIndex (resize ring_one_batch 2 3) = 1 \<and>
   m_u32Level (resize ring_one_batch 2 3) = 1 \<and>
   length (m_vTCircularBuffer (resize ring_one_batch 2 3)) = 2 \<and>
   length (m_vi64Timestamps_us (resize ring_one_batch 2 3)) = 2 \<and>
   length (m_vTElement (m_vTCircularBuffer (resize ring_one_batch 2 3) ! 0)) = 3 \<and>
   m_u32DataStartIndex (m_vTCircularBuffer (resize ring_one_batch 2 3) ! 0) = 0 \<and>
   m_u32DataSize (m_vTCircularBuffer (resize ring_one_batch 2 3) ! 0) = 4 \<and>
   m_vTElement (m_vTCircularBuffer (resize ring_one_batch 2 3) ! 0) ! 1 = 2 \<and>
   m_vi64Timestamps_us (resize ring_one_batch 2 3) ! 0 = 7"
proof -
  have i: "(0 :: nat) < unat (2 :: 32 word)" by simp
  have slot: "m_vTCircularBuffer ring_one_batch ! 0
      = \<lparr>m_vTElement = [1, 2, 3, 4], m_u32DataStartIndex = 0, m_u32DataSize = 4\<rparr>"
    and ts: "m_vi64Timestamps_us ring_one_batch ! 0 = 7"
    by (simp_all add: ring_one_batch_def)
  show ?thesis
    using resize_keeps_counters_and_data [OF i, of ring_one_batch 3 1]
    by (simp add: ring_one_batch_fields slot ts length_vector_resize vector_resize_nth)
qed

text \<open>
  The claim fails on the ring that holds one committed batch: \<open>resize\<close> to the same
  sizes changes nothing at all, so level and write cursor stay 1 where a fresh ring has
  0, and the batch, its span and its timestamp are all still there.
\<close>

theorem resize_does_not_reinitialize:
  "resize ring_one_batch 3 4 = ring_one_batch \<and>
   m_u32Level (resize ring_one_batch 3 4) = 1 \<and>
   m_u32WriteIndex (resize ring_one_batch 3 4) = 1 \<and>
   m_vTElement (m_vTCircularBuffer (resize ring_one_batch 3 4) ! 0) = [1, 2, 3, 4] \<and>
   m_u32DataSize (m_vTCircularBuffer (resize ring_one_batch 3 4) ! 0) = 4 \<and>
   m_vi64Timestamps_us (resize ring_one_batch 3 4) = [7, 0, 0] \<and>
   m_u32Level (new_cThreadSafeCircularBuffer 3 4 :: int cThreadSafeCircularBuffer) = 0 \<and>
   m_u32WriteIndex (new_cThreadSafeCircularBuffer 3 4 :: int cThreadSafeCircularBuffer) = 0"
proof -
  have "resize ring_one_batch 3 4 = ring_one_batch"
    by (simp add: resize_def Let_def resize_loop_eq vector_resize_def cBufferElement_resize_def
        ring_one_batch_def)
  then show ?thesis by (simp add: new_fields) (simp add: ring_one_batch_def)
qed

text \<open>
  Claim C5.  The claim adds to the effect of \<open>clear\<close> that a following
  \<open>getNextWriteIndex\<close> returns a valid index at once, for every ring state.  What holds,
  for every ring with one timestamp per slot: \<open>clear\<close> sets \<open>readIndex\<close>, \<open>writeIndex\<close>
  and \<open>level\<close> to zero, sets the span of every slot to \<open>(0, 0)\<close>, sets every timestamp to
  zero, keeps the slot count and the storage of every slot, sends exactly one
  \<open>notify_one\<close> to the write-possible condition and nothing to the read-possible one;
  and, when the ring has at least one slot, a following \<open>getNextWriteIndex\<close> returns
  index 0 without waiting (for every timeout and wait environment) and leaves the ring
  as \<open>clear\<close> left it.
\<close>

theorem clear_resets_ring:
  assumes "length (m_vi64Timestamps_us r) = length (m_vTCircularBuffer r)"
  shows "\<exists>r'. clear r = Some r' \<and>
           m_u32ReadIndex r' = 0 \<and> m_u32WriteIndex r' = 0 \<and> m_u32Level r' = 0 \<and>
           m_vTCircularBuffer r'
             = map (\<lambda>e. e\<lparr>m_u32DataStartIndex := 0, m_u32DataSize := 0\<rparr>) (m_vTCircularBuffer r) \<and>
           length (m_vTCircularBuffer r') = length (m_vTCircularBuffer r) \<and>
           map m_vTElement (m_vTCircularBuffer r') = map m_vTElement (m_vTCircularBuffer r) \<and>
           m_vi64Timestamps_us r' = replicate (length (m_vTCircularBuffer r)) 0 \<and>
           m_oConditionWritePossible r' = m_oConditionWritePossible r @ [notify_one] \<and>
           m_oConditionReadPossible r' = m_oConditionReadPossible r \<and>
           (m_vTCircularBuffer r \<noteq> [] \<longrightarrow> getNextWriteIndex r' t w = (r', 0))"
proof -
  have span: "setEmpty = (\<lambda>e :: 'a cBufferElement. e\<lparr>m_u32DataStartIndex := 0, m_u32DataSize := 0\<rparr>)"
    by (rule ext) (simp add: setEmpty_def)
  show ?thesis
    unfolding clear_Some [OF assms]
    by (simp add: span getNextWriteIndex_def comp_def)
qed

theorem clear_resets_ring_witness:
  "length (m_vi64Timestamps_us ring_one_batch) = length (m_vTCircularBuffer ring_one_batch) \<and>
   m_vTCircularBuffer ring_one_batch \<noteq> [] \<and>
   (\<exists>r'. clear ring_one_batch = Some r' \<and>
         m_u32ReadIndex r' = 0 \<and> m_u32WriteIndex r' = 0 \<and> m_u32Level r' = 0 \<and>
         m_vTCircularBuffer r' ! 0
           = \<lparr>m_vTElement = [1, 2, 3, 4], m_u32DataStartIndex = 0, m_u32DataSize = 0\<rparr> \<and>
         length (m_vTCircularBuffer r') = 3 \<and>
         m_vi64Timestamps_us r' = [0, 0, 0] \<and>
         m_oConditionWritePossible r' = [notify_one] \<and>
         m_oConditionReadPossible r' = [notify_one] \<and>
         getNextWriteIndex r' 0 None = (r', 0))"
proof -
  have len: "length (m_vi64Timestamps_us ring_one_batch) = length (m_vTCircularBuffer ring_one_batch)"
    by (simp add: ring_one_batch_fields)
  have buf: "m_vTCircularBuffer ring_one_batch =
        [\<lparr>m_vTElement = [1, 2, 3, 4], m_u32DataStartIndex = 0, m_u32DataSize = 4\<rparr>,
         \<lparr>m_vTElement = [0, 0, 0, 0], m_u32DataStartIndex = 0, m_u32DataSize = 0\<rparr>,
         \<lparr>m_vTElement = [0, 0, 0, 0], m_u32DataStartIndex = 0, m_u32DataSize = 0\<rparr>]"
    and conds: "m_oConditionWritePossible ring_one_batch = []"
      "m_oConditionReadPossible ring_one_batch = [notify_one]"
    by (simp_all add: ring_one_batch_def)
  have three: "replicate 3 (0 :: 64 word) = [0, 0, 0]" by (simp add: numeral_3_eq_3)
  show ?thesis
    using len clear_resets_ring [OF len, of 0 None]
    by (auto simp: buf conds three)
qed

text \<open>
  The ring constructed with no slots is a ring state too, and it is always full: after
  \<open>clear\<close> its level 0 is not below its slot count 0, so \<open>getNextWriteIndex\<close> waits and,
  when no notification arrives in time, returns the sentinel.
\<close>

theorem clear_without_slots_then_acquire_waits:
  "ring_inv (new_cThreadSafeCircularBuffer 0 4 :: int cThreadSafeCircularBuffer) \<and>
   clear (new_cThreadSafeCircularBuffer 0 4 :: int cThreadSafeCircularBuffer)
     = Some \<lparr>m_vTCircularBuffer = [], m_vi64Timestamps_us = [],
             m_u32ReadIndex = 0, m_u32WriteIndex = 0, m_u32Level = 0,
             m_oConditionReadPossible = [], m_oConditionWritePossible = [notify_one]\<rparr> \<and>
   snd (getNextWriteIndex
          \<lparr>m_vTCircularBuffer = ([] :: int cBufferElement list), m_vi64Timestamps_us = [],
           m_u32ReadIndex = 0, m_u32WriteIndex = 0, m_u32Level = 0,
           m_oConditionReadPossible = [], m_oConditionWritePossible = [notify_one]\<rparr>
          4294967295 None) = - 1 \<and>
   snd (getNextWriteIndex
          \<lparr>m_vTCircularBuffer = ([] :: int cBufferElement list), m_vi64Timestamps_us = [],
           m_u32ReadIndex = 0, m_u32WriteIndex = 0, m_u32Level = 0,
           m_oConditionReadPossible = [], m_oConditionWritePossible = [notify_one]\<rparr>
          1000 (Some 2000)) = - 1"
proof -
  have "clear (new_cThreadSafeCircularBuffer 0 4 :: int cThreadSafeCircularBuffer)
     = Some \<lparr>m_vTCircularBuffer = [], m_vi64Timestamps_us = [],
             m_u32ReadIndex = 0, m_u32WriteIndex = 0, m_u32Level = 0,
             m_oConditionReadPossible = [], m_oConditionWritePossible = [notify_one]\<rparr>"
    by code_simp
  then show ?thesis
    using ring_inv_new [of 0 4]
    by (simp add: getNextWriteIndex_def timed_wait_def)
qed

text \<open>
  Claim C8.  The claim is that a zero or omitted timeout makes \<open>getNextReadIndex\<close> and
  \<open>getNextWriteIndex\<close> wait for ever, so that they never return the sentinel.  The
  timeout is handed to \<open>timed_wait\<close> as it is: the omitted timeout is \<open>UINT_MAX\<close>
  milliseconds, a finite period, and a zero timeout has elapsed at once.  What holds, in
  every ring state of the data model: the call returns the sentinel exactly when the
  ring is empty (for read) or full (for write) and no notification arrives before the
  timeout has elapsed; with a zero timeout, exactly when the ring is empty or full; with
  the omitted timeout and no notification, again exactly when the ring is empty or full.
\<close>

theorem acquire_sentinel_iff_wait_times_out:
  assumes "ring_inv r"
  shows "(snd (getNextReadIndex r t w) = - 1
            \<longleftrightarrow> m_u32Level r = 0 \<and> (case w of None \<Rightarrow> True | Some d \<Rightarrow> unat t \<le> d)) \<and>
         (snd (getNextWriteIndex r t' w) = - 1
            \<longleftrightarrow> length (m_vTCircularBuffer r) \<le> unat (m_u32Level r) \<and>
                (case w of None \<Rightarrow> True | Some d \<Rightarrow> unat t' \<le> d)) \<and>
         (snd (getNextReadIndex r 0 w) = - 1 \<longleftrightarrow> m_u32Level r = 0) \<and>
         (snd (getNextWriteIndex r 0 w) = - 1
            \<longleftrightarrow> length (m_vTCircularBuffer r) \<le> unat (m_u32Level r)) \<and>
         (snd (getNextReadIndex r (of_nat UINT_MAX) None) = - 1 \<longleftrightarrow> m_u32Level r = 0) \<and>
         (snd (getNextWriteIndex r (of_nat UINT_MAX) None) = - 1
            \<longleftrightarrow> length (m_vTCircularBuffer r) \<le> unat (m_u32Level r))"
proof -
  note ns = ring_inv_cursors_not_sentinel [OF assms]
  have rd: "snd (getNextReadIndex r t w) = - 1
      \<longleftrightarrow> m_u32Level r = 0 \<and> \<not> timed_wait (unat t) w" for t w
    using ns by (simp add: getNextReadIndex_def)
  have wr: "snd (getNextWriteIndex r t w) = - 1
      \<longleftrightarrow> length (m_vTCircularBuffer r) \<le> unat (m_u32Level r) \<and> \<not> timed_wait (unat t) w" for t w
    using ns by (simp add: getNextWriteIndex_def)
  have zero: "\<not> timed_wait 0 w" and never: "\<not> timed_wait k None" for k
    by (simp_all add: timed_wait_def split: option.splits)
  show ?thesis
    unfolding rd wr timed_wait_iff [symmetric] using zero never by simp
qed

theorem acquire_sentinel_iff_wait_times_out_witness:
  "ring_inv (new_cThreadSafeCircularBuffer 3 4 :: int cThreadSafeCircularBuffer) \<and>
   snd (getNextReadIndex (new_cThreadSafeCircularBuffer 3 4 :: int cThreadSafeCircularBuffer)
          100 (Some 250)) = - 1 \<and>
   snd (getNextReadIndex (new_cThreadSafeCircularBuffer 3 4 :: int cThreadSafeCircularBuffer)
          100 (Some 30)) \<noteq> - 1 \<and>
   snd (getNextWriteIndex (new_cThreadSafeCircularBuffer 3 4 :: int cThreadSafeCircularBuffer)
          0 (Some 30)) \<noteq> - 1"
proof -
  let ?r = "new_cThreadSafeCircularBuffer 3 4 :: int cThreadSafeCircularBuffer"
  have inv: "ring_inv ?r" by (rule ring_inv_new)
  have len: "length (m_vTCircularBuffer ?r) = 3" by (subst new_fields(1)) simp
  show ?thesis
    using inv acquire_sentinel_iff_wait_times_out [OF inv, of 100 "Some 250" 0]
      acquire_sentinel_iff_wait_times_out [OF inv, of 100 "Some 30" 0]
    by (simp add: new_fields(5) len)
qed

text \<open>
  On an empty ring \<open>getNextReadIndex\<close> returns the sentinel with a zero timeout, and
  with the omitted timeout when no notification arrives or when it arrives after
  5000000000 ms; \<open>getNextWriteIndex\<close> does the same on a full ring of one slot.
\<close>

theorem acquire_with_zero_or_omitted_timeout_returns_sentinel:
  "snd (getNextReadIndex (new_cThreadSafeCircularBuffer 3 4 :: int cThreadSafeCircularBuffer)
          0 (Some 1)) = - 1 \<and>
   snd (getNextReadIndex (new_cThreadSafeCircularBuffer 3 4 :: int cThreadSafeCircularBuffer)
          (of_nat UINT_MAX) None) = - 1 \<and>
   snd (getNextReadIndex (new_cThreadSafeCircularBuffer 3 4 :: int cThreadSafeCircularBuffer)
          (of_nat UINT_MAX) (Some 5000000000)) = - 1 \<and>
   snd (getNextWriteIndex
          (elementWritten (new_cThreadSafeCircularBuffer 1 4 :: int cThreadSafeCircularBuffer))
          0 (Some 1)) = - 1 \<and>
   snd (getNextWriteIndex
          (elementWritten (new_cThreadSafeCircularBuffer 1 4 :: int cThreadSafeCircularBuffer))
          (of_nat UINT_MAX) None) = - 1 \<and>
   snd (getNextWriteIndex
          (elementWritten (new_cThreadSafeCircularBuffer 1 4 :: int cThreadSafeCircularBuffer))
          (of_nat UINT_MAX) (Some 5000000000)) = - 1"
proof -
  let ?e = "new_cThreadSafeCircularBuffer 3 4 :: int cThreadSafeCircularBuffer"
  let ?f = "elementWritten (new_cThreadSafeCircularBuffer 1 4 :: int cThreadSafeCircularBuffer)"
  have empty: "m_u32Level ?e = 0" by (simp add: new_fields)
  have len: "length (m_vTCircularBuffer ?f) = 1"
    unfolding elementWritten_frame(1) by (subst new_fields(1)) simp
  have full: "m_u32Level ?f = 1" by (simp add: elementWritten_frame(5) new_fields)
  have u32: "unat (of_nat UINT_MAX :: 32 word) = 4294967295"
    and u64: "unat (of_nat UINT_MAX :: 64 word) = 4294967295"
    by (simp_all add: UINT_MAX_def)
  show ?thesis
    by (simp add: getNextReadIndex_def getNextWriteIndex_def timed_wait_def empty len full u32 u64)
qed

end
